(* ===== verification/Prelude.thy ===== *)
theory Prelude
  imports Main "HOL-Library.Word" "HOL-Library.Char_ord"
begin

text \<open>
  Shared vocabulary of the development: the machine types of the C++ sources, the result type of
  operations that can throw or run into undefined behaviour, checked array accesses, and the
  generic lemmas on lists, results and modular arithmetic the components use.
\<close>

unbundle bit_operations_syntax

section \<open>Machine types\<close>

text \<open>
  \<open>std::byte\<close> and \<open>uint8_t\<close> are 8-bit words, \<open>unsigned int\<close> is a 32-bit word, \<open>size_t\<close> a 64-bit
  word (the targets the Dockerfiles build for). A \<open>std::string\<close> is a list of \<open>char\<close>, Isabelle's
  8-bit characters; a \<open>std::vector<std::byte>\<close> is a list of bytes.
\<close>

type_synonym byte = "8 word"
type_synonym bytes = "8 word list"
type_synonym u32 = "32 word"
type_synonym size_t = "64 word"

definition byte_of_char :: "char \<Rightarrow> byte" where
  "byte_of_char c = word_of_nat (of_char c)"

definition char_of_byte :: "byte \<Rightarrow> char" where
  "char_of_byte b = char_of (unat b)"

section \<open>Results\<close>

text \<open>
  An operation that can fail returns a value of \<open>failure + 'a\<close>: a \<open>std::runtime_error\<close> thrown by
  the code itself with its message, an exception thrown by a library the code calls (named), or
  undefined behaviour that the code would run into.
\<close>

datatype failure =
    RuntimeError string
  | LibraryThrow string
  | Undefined string

type_synonym 'a res = "failure + 'a"

definition ebind :: "'e + 'a \<Rightarrow> ('a \<Rightarrow> 'e + 'b) \<Rightarrow> 'e + 'b" where
  "ebind m f = (case m of Inl e \<Rightarrow> Inl e | Inr a \<Rightarrow> f a)"

text \<open>A loop that runs an operation over a list and stops at the first failure.\<close>

primrec emap :: "('a \<Rightarrow> 'e + 'b) \<Rightarrow> 'a list \<Rightarrow> 'e + 'b list" where
  "emap f [] = Inr []"
| "emap f (x # xs) = ebind (f x) (\<lambda>y. ebind (emap f xs) (\<lambda>ys. Inr (y # ys)))"

named_theorems res_simps \<open>equations and inversions of the result type\<close>

lemma ebind_Inl [simp]: "ebind (Inl e) f = Inl e"
  by (simp add: ebind_def)

lemma ebind_Inr [simp]: "ebind (Inr a) f = f a"
  by (simp add: ebind_def)

lemma ebind_eq_Inr [res_simps]: "ebind m f = Inr b \<longleftrightarrow> (\<exists>a. m = Inr a \<and> f a = Inr b)"
  by (cases m) auto

lemma ebind_eq_Inl [res_simps]:
  "ebind m f = Inl e \<longleftrightarrow> m = Inl e \<or> (\<exists>a. m = Inr a \<and> f a = Inl e)"
  by (cases m) auto

lemma ebind_assoc: "ebind (ebind m f) g = ebind m (\<lambda>a. ebind (f a) g)"
  by (cases m) auto

lemma emap_Inr_iff:
  "emap f xs = Inr ys \<longleftrightarrow> list_all2 (\<lambda>x y. f x = Inr y) xs ys"
proof (induction xs arbitrary: ys)
  case Nil
  then show ?case by auto
next
  case (Cons x xs)
  show ?case
    by (cases ys) (auto simp: res_simps Cons.IH)
qed

lemma emap_length: "emap f xs = Inr ys \<Longrightarrow> length ys = length xs"
  by (auto simp: emap_Inr_iff dest: list_all2_lengthD)

lemma emap_set:
  "emap f xs = Inr ys \<Longrightarrow> y \<in> set ys \<Longrightarrow> \<exists>x \<in> set xs. f x = Inr y"
  by (force simp: emap_Inr_iff list_all2_conv_all_nth in_set_conv_nth)

lemma emap_Inr_total: "(\<And>x. x \<in> set xs \<Longrightarrow> f x = Inr (g x)) \<Longrightarrow> emap f xs = Inr (map g xs)"
  by (induction xs) auto

lemma emap_Inl: "emap f xs = Inl e \<Longrightarrow> \<exists>x \<in> set xs. f x = Inl e"
  by (induction xs) (auto simp: res_simps)

text \<open>A loop that threads a state through an operation on each element.\<close>

primrec efold :: "('a \<Rightarrow> 's \<Rightarrow> 'e + 's) \<Rightarrow> 'a list \<Rightarrow> 's \<Rightarrow> 'e + 's" where
  "efold f [] s = Inr s"
| "efold f (x # xs) s = ebind (f x s) (efold f xs)"

lemma efold_append: "efold f (xs @ ys) s = ebind (efold f xs s) (efold f ys)"
  by (induction xs arbitrary: s) (auto simp: ebind_def split: sum.splits)

lemma efold_invariant:
  assumes "\<And>x s. x \<in> set xs \<Longrightarrow> P s \<Longrightarrow> \<exists>s'. f x s = Inr s' \<and> P s'" and "P s"
  shows "\<exists>s'. efold f xs s = Inr s' \<and> P s'"
  using assms
proof (induction xs arbitrary: s)
  case (Cons x xs)
  then obtain s1 where "f x s = Inr s1" "P s1" by (meson list.set_intros(1))
  with Cons show ?case by simp
qed simp

text \<open>Results without undefined behaviour: a value or an exception.\<close>

definition defined :: "'a res \<Rightarrow> bool" where
  "defined m \<longleftrightarrow> (\<forall>msg. m \<noteq> Inl (Undefined msg))"

named_theorems defined_intros \<open>operations free of undefined behaviour\<close>

lemma defined_simps [simp]:
  "defined (Inr a)" "defined (Inl (RuntimeError msg))" "defined (Inl (LibraryThrow msg))"
  "\<not> defined (Inl (Undefined msg))"
  by (simp_all add: defined_def)

lemma defined_ebind [defined_intros]:
  "defined m \<Longrightarrow> (\<And>a. m = Inr a \<Longrightarrow> defined (f a)) \<Longrightarrow> defined (ebind m f)"
  by (cases m) (auto simp: defined_def)

section \<open>Checked array accesses\<close>

text \<open>\<open>a[i]\<close> on a plain array or vector: out of range is undefined behaviour.\<close>

definition load_at :: "'a list \<Rightarrow> nat \<Rightarrow> 'a res" where
  "load_at xs i = (if i < length xs then Inr (xs ! i) else Inl (Undefined ''out-of-bounds read''))"

definition store_at :: "'a list \<Rightarrow> nat \<Rightarrow> 'a \<Rightarrow> 'a list res" where
  "store_at xs i x =
     (if i < length xs then Inr (xs[i := x]) else Inl (Undefined ''out-of-bounds write''))"

lemma load_at_ok [simp]: "i < length xs \<Longrightarrow> load_at xs i = Inr (xs ! i)"
  by (simp add: load_at_def)

lemma store_at_ok [simp]: "i < length xs \<Longrightarrow> store_at xs i x = Inr (xs[i := x])"
  by (simp add: store_at_def)

lemma takeWhile_before: "x \<notin> set p \<Longrightarrow> takeWhile (\<lambda>b. b \<noteq> x) (p @ x # ys) = p"
  by (induction p) auto

section \<open>Ring arithmetic\<close>

text \<open>
  A ring of \<open>n\<close> slots with a read position \<open>s\<close> and a write position \<open>e\<close> holds
  \<open>ring_len n s e\<close> items, those at \<open>s, s + 1, \<dots>\<close> modulo \<open>n\<close>.
\<close>

definition ring_len :: "nat \<Rightarrow> nat \<Rightarrow> nat \<Rightarrow> nat" where
  "ring_len n s e = (e + n - s) mod n"

definition ring_list :: "'a list \<Rightarrow> nat \<Rightarrow> nat \<Rightarrow> 'a list" where
  "ring_list xs s k = map (\<lambda>i. xs ! ((s + i) mod length xs)) [0..<k]"

lemma mod_add_cases:
  fixes a b n :: nat
  assumes "a < n" and "b \<le> n"
  shows "(a + b) mod n = (if a + b < n then a + b else a + b - n)"
  using assms by (auto simp: mod_if)

lemma mod_shift_inj:
  fixes i j n s :: nat
  assumes "s < n" "i < n" "j < n" "(s + i) mod n = (s + j) mod n"
  shows "i = j"
  using assms by (auto simp: mod_add_cases split: if_splits)

lemma ring_len_cases:
  assumes "s < n" and "e < n"
  shows "ring_len n s e = (if s \<le> e then e - s else e + n - s)"
  using assms by (auto simp: ring_len_def mod_if)

lemma ring_len_less: "0 < n \<Longrightarrow> ring_len n s e < n"
  by (simp add: ring_len_def)

lemma ring_len_zero_iff: "s < n \<Longrightarrow> e < n \<Longrightarrow> ring_len n s e = 0 \<longleftrightarrow> s = e"
  by (auto simp: ring_len_cases)

lemma ring_full_iff:
  "s < n \<Longrightarrow> e < n \<Longrightarrow> s = (e + 1) mod n \<longleftrightarrow> ring_len n s e = n - 1"
  by (auto simp: ring_len_cases mod_if)

lemma ring_write_pos: "s < n \<Longrightarrow> e < n \<Longrightarrow> (s + ring_len n s e) mod n = e"
  by (auto simp: ring_len_cases mod_if)

lemma ring_len_write:
  "s < n \<Longrightarrow> e < n \<Longrightarrow> s \<noteq> (e + 1) mod n \<Longrightarrow>
   ring_len n s ((e + 1) mod n) = Suc (ring_len n s e)"
  by (auto simp: ring_len_cases mod_if split: if_splits)

lemma ring_len_read:
  "s < n \<Longrightarrow> e < n \<Longrightarrow> s \<noteq> e \<Longrightarrow>
   Suc (ring_len n ((s + 1) mod n) e) = ring_len n s e"
  by (auto simp: ring_len_cases mod_if split: if_splits)

lemma ring_list_length [simp]: "length (ring_list xs s k) = k"
  by (simp add: ring_list_def)

lemma ring_list_0 [simp]: "ring_list xs s 0 = []"
  by (simp add: ring_list_def)

lemma ring_list_snoc:
  assumes "s < length xs" and "k < length xs"
  shows "ring_list (xs[(s + k) mod length xs := x]) s (Suc k) = ring_list xs s k @ [x]"
proof -
  have "(s + k) mod length xs \<noteq> (s + i) mod length xs" if "i < k" for i
    using mod_shift_inj [of s "length xs" k i] that assms by auto
  moreover have "(s + k) mod length xs < length xs"
    using assms by (intro mod_less_divisor) auto
  ultimately show ?thesis
    by (auto simp: ring_list_def nth_list_update)
qed

lemma ring_list_Suc: "ring_list xs s (Suc k) = ring_list xs s k @ [xs ! ((s + k) mod length xs)]"
  by (simp add: ring_list_def)

lemma ring_list_store_free:
  assumes "s < length xs" and "k < length xs"
  shows "ring_list (xs[(s + k) mod length xs := x]) s k = ring_list xs s k"
proof -
  have "ring_list (xs[(s + k) mod length xs := x]) s (Suc k) = ring_list xs s k @ [x]"
    by (rule ring_list_snoc [OF assms])
  then show ?thesis by (simp add: ring_list_Suc)
qed

lemma ring_len_mod_end: "s < n \<Longrightarrow> e \<le> n \<Longrightarrow> (e + n - s) mod n = ring_len n s (e mod n)"
proof (cases "e = n")
  case True
  assume "s < n"
  then have "n + n - s = (n - s) + n" by simp
  then have "(n + n - s) mod n = (n - s) mod n" by (simp only: mod_add_self2)
  then show ?thesis by (simp add: True ring_len_def)
next
  case False
  assume "s < n" "e \<le> n"
  with False show ?thesis by (simp add: ring_len_def)
qed

lemma ring_list_Cons:
  assumes "s < length xs"
  shows "ring_list xs s (Suc k) = xs ! s # ring_list xs ((s + 1) mod length xs) k"
  using assms
  by (simp add: ring_list_def upt_conv_Cons map_Suc_upt [symmetric] mod_simps comp_def
      del: upt_Suc)

lemma wrap_step: "e < n \<Longrightarrow> (if n \<le> e + 1 then 0 else e + 1) = (e + 1) mod (n::nat)"
  by (auto simp: mod_if)

end
