(* ===== verification/RequestQueue.thy ===== *)
theory RequestQueue
  imports Prelude
begin

text \<open>
  The request queue (\<open>src/RequestQueue.cpp\<close>, \<open>inc/RequestQueue.hpp\<close>): a ring buffer that hands
  requests from the server thread to the request handler thread. This theory holds the operations
  as they run when no other thread interferes; the interleaving of the two threads is in
  \<open>QueueThreads\<close>.
\<close>

section \<open>State and operations\<close>

record 'a request_queue =
  maxSize :: size_t
  items :: "'a list"
  rq_start :: size_t
  rq_end :: size_t

text \<open>
  The constructor allocates \<open>_maxSize\<close> default-constructed items (\<open>new RequestQueueItem[_maxSize]\<close>);
  \<open>d\<close> is what such an item holds.
\<close>

definition new_RequestQueue :: "'a \<Rightarrow> size_t \<Rightarrow> 'a request_queue" where
  "new_RequestQueue d n =
     \<lparr>maxSize = n, items = replicate (unat n) d, rq_start = 0, rq_end = 0\<rparr>"

text \<open>\<open>x % maxSize\<close> on \<open>size_t\<close>: a division by zero traps.\<close>

definition size_mod :: "size_t \<Rightarrow> size_t \<Rightarrow> size_t res" where
  "size_mod x n = (if n = 0 then Inl (Undefined ''division by zero'') else Inr (x mod n))"

definition enqueue :: "'a request_queue \<Rightarrow> 'a \<Rightarrow> (int \<times> 'a request_queue) res" where
  "enqueue q item =
     ebind (size_mod (rq_end q + 1) (maxSize q)) (\<lambda>next.
       if rq_start q = next then Inr (-1, q)
       else ebind (store_at (items q) (unat (rq_end q)) item) (\<lambda>items'.
         let q1 = q\<lparr>items := items', rq_end := rq_end q + 1\<rparr>;
             q2 = (if maxSize q1 \<le> rq_end q1 then q1\<lparr>rq_end := 0\<rparr> else q1)
         in Inr (0, q2)))"

definition dequeue :: "'a request_queue \<Rightarrow> ('a \<times> 'a request_queue) res" where
  "dequeue q =
     (if rq_start q = rq_end q
      then Inl (RuntimeError ''Attempt to dequeue on empty RequestQueue!'')
      else ebind (load_at (items q) (unat (rq_start q))) (\<lambda>item.
         let q1 = q\<lparr>rq_start := rq_start q + 1\<rparr>;
             q2 = (if maxSize q1 \<le> rq_start q1 then q1\<lparr>rq_start := 0\<rparr> else q1)
         in Inr (item, q2)))"

definition count :: "'a request_queue \<Rightarrow> size_t res" where
  "count q = size_mod (rq_end q + maxSize q - rq_start q) (maxSize q)"

section \<open>Well-formedness and abstraction\<close>

text \<open>
  The bound \<open>2 ^ 63\<close> keeps \<open>end + maxSize\<close> inside \<open>size_t\<close>; no allocation of items can reach it.
\<close>

definition rq_wf :: "'a request_queue \<Rightarrow> bool" where
  "rq_wf q \<longleftrightarrow> 0 < unat (maxSize q) \<and> unat (maxSize q) \<le> 2 ^ 63 \<and>
     length (items q) = unat (maxSize q) \<and>
     unat (rq_start q) < unat (maxSize q) \<and> unat (rq_end q) < unat (maxSize q)"

definition rq_len :: "'a request_queue \<Rightarrow> nat" where
  "rq_len q = ring_len (unat (maxSize q)) (unat (rq_start q)) (unat (rq_end q))"

definition rq_contents :: "'a request_queue \<Rightarrow> 'a list" where
  "rq_contents q = ring_list (items q) (unat (rq_start q)) (rq_len q)"

definition rq_capacity :: "'a request_queue \<Rightarrow> nat" where
  "rq_capacity q = unat (maxSize q) - 1"

lemma rq_wf_new: "0 < unat n \<Longrightarrow> unat n \<le> 2 ^ 63 \<Longrightarrow> rq_wf (new_RequestQueue d n)"
  by (simp add: rq_wf_def new_RequestQueue_def)

lemma rq_contents_new [simp]: "rq_contents (new_RequestQueue d n) = []"
  by (simp add: rq_contents_def rq_len_def ring_len_def new_RequestQueue_def)

lemma rq_capacity_new [simp]: "rq_capacity (new_RequestQueue d n) = unat n - 1"
  by (simp add: rq_capacity_def new_RequestQueue_def)

lemma rq_contents_length [simp]: "length (rq_contents q) = rq_len q"
  by (simp add: rq_contents_def)

lemma rq_len_le_capacity: "rq_wf q \<Longrightarrow> rq_len q \<le> rq_capacity q"
  using ring_len_less [of "unat (maxSize q)" "unat (rq_start q)" "unat (rq_end q)"]
  by (auto simp: rq_wf_def rq_len_def rq_capacity_def)

lemma unat_Suc_pos:
  fixes p n :: size_t
  assumes "unat p < unat n" and "unat n \<le> 2 ^ 63"
  shows "unat (p + 1) = unat p + 1"
  using assms by (simp add: unat_word_ariths)

lemma size_mod_next:
  assumes "unat p < unat n" and "unat n \<le> 2 ^ 63"
  shows "\<exists>r. size_mod (p + 1) n = Inr r \<and> unat r = (unat p + 1) mod unat n"
proof -
  have "n \<noteq> 0" using assms(1) by auto
  then show ?thesis
    using assms by (simp add: size_mod_def unat_mod_distrib unat_Suc_pos)
qed

text \<open>Both operations advance a position with an increment and a reset at \<open>maxSize\<close>.\<close>

lemma unat_wrap_pos:
  fixes p n :: size_t
  assumes "unat p < unat n" and "unat n \<le> 2 ^ 63"
  shows "unat (if n \<le> p + 1 then 0 else p + 1) = (unat p + 1) mod unat n"
  using assms by (auto simp: word_le_nat_alt unat_Suc_pos mod_if)

lemma word_of_nat_unat_eq: "word_of_nat (unat x) = x"
  by (simp add: word_unat_eq_iff)

section \<open>The operations on the abstract contents\<close>

lemma enqueue_full:
  assumes "rq_wf q" and "rq_len q = rq_capacity q"
  shows "enqueue q x = Inr (-1, q)"
proof -
  obtain r where r: "size_mod (rq_end q + 1) (maxSize q) = Inr r"
      "unat r = (unat (rq_end q) + 1) mod unat (maxSize q)"
    using size_mod_next assms(1) by (auto simp: rq_wf_def)
  moreover have "unat (rq_start q) = (unat (rq_end q) + 1) mod unat (maxSize q)"
    using assms ring_full_iff [of "unat (rq_start q)" "unat (maxSize q)" "unat (rq_end q)"]
    by (simp add: rq_wf_def rq_len_def rq_capacity_def)
  ultimately have "rq_start q = r" by (simp add: word_unat_eq_iff)
  with r show ?thesis by (simp add: enqueue_def)
qed

lemma enqueue_room:
  assumes wf: "rq_wf q" and room: "rq_len q < rq_capacity q"
  shows "\<exists>q'. enqueue q x = Inr (0, q') \<and> rq_wf q' \<and>
           rq_contents q' = rq_contents q @ [x] \<and> rq_capacity q' = rq_capacity q"
proof -
  let ?n = "unat (maxSize q)" and ?s = "unat (rq_start q)" and ?e = "unat (rq_end q)"
  have w: "?s < ?n" "?e < ?n" "?n \<le> 2 ^ 63" "length (items q) = ?n"
    using wf by (auto simp: rq_wf_def)
  have nf: "?s \<noteq> (?e + 1) mod ?n"
    using ring_full_iff [OF w(1,2)] room by (auto simp: rq_len_def rq_capacity_def)
  obtain r where r: "size_mod (rq_end q + 1) (maxSize q) = Inr r" "unat r = (?e + 1) mod ?n"
    using size_mod_next w by blast
  have "rq_start q \<noteq> r" using nf r(2) by auto
  define q' where "q' = q\<lparr>items := (items q)[?e := x],
      rq_end := (if maxSize q \<le> rq_end q + 1 then 0 else rq_end q + 1)\<rparr>"
  have enq: "enqueue q x = Inr (0, q')"
    using r(1) \<open>rq_start q \<noteq> r\<close> w by (simp add: enqueue_def q'_def)
  have e': "unat (rq_end q') = (?e + 1) mod ?n"
    using unat_wrap_pos [OF w(2,3)] by (simp add: q'_def)
  have len: "rq_len q' = Suc (rq_len q)"
    using ring_len_write [OF w(1,2) nf] e' by (simp add: rq_len_def q'_def)
  have pos: "(?s + rq_len q) mod ?n = ?e"
    unfolding rq_len_def by (rule ring_write_pos [OF w(1,2)])
  have "rq_len q < ?n" using room by (simp add: rq_capacity_def)
  then have "rq_contents q' = rq_contents q @ [x]"
    using ring_list_snoc [of ?s "items q" "rq_len q" x] w pos
    by (simp add: rq_contents_def len) (simp add: q'_def)
  moreover have "rq_wf q'"
    using wf e' by (simp add: rq_wf_def q'_def)
  ultimately show ?thesis
    using enq by (simp add: rq_capacity_def q'_def)
qed

lemma dequeue_empty:
  assumes "rq_wf q" and "rq_contents q = []"
  shows "dequeue q = Inl (RuntimeError ''Attempt to dequeue on empty RequestQueue!'')"
proof -
  have "rq_len q = 0" using assms(2) rq_contents_length [of q] by simp
  then have "unat (rq_start q) = unat (rq_end q)"
    using assms(1) by (simp add: rq_wf_def rq_len_def ring_len_zero_iff)
  then have "rq_start q = rq_end q" by (simp add: word_unat_eq_iff)
  then show ?thesis by (simp add: dequeue_def)
qed

lemma dequeue_front:
  assumes wf: "rq_wf q" and ne: "rq_contents q = x # xs"
  shows "\<exists>q'. dequeue q = Inr (x, q') \<and> rq_wf q' \<and> rq_contents q' = xs \<and>
           rq_capacity q' = rq_capacity q"
proof -
  let ?n = "unat (maxSize q)" and ?s = "unat (rq_start q)" and ?e = "unat (rq_end q)"
  have w: "?s < ?n" "?e < ?n" "?n \<le> 2 ^ 63" "length (items q) = ?n"
    using wf by (auto simp: rq_wf_def)
  have len: "rq_len q = Suc (length xs)"
    using ne rq_contents_length [of q] by simp
  then have ne': "?s \<noteq> ?e"
    using ring_len_zero_iff [OF w(1,2)] by (simp add: rq_len_def)
  define q' where
    "q' = q\<lparr>rq_start := (if maxSize q \<le> rq_start q + 1 then 0 else rq_start q + 1)\<rparr>"
  have deq: "dequeue q = Inr (items q ! ?s, q')"
    using ne' w by (auto simp: dequeue_def q'_def)
  have s': "unat (rq_start q') = (?s + 1) mod ?n"
    using unat_wrap_pos [OF w(1,3)] by (simp add: q'_def)
  have "Suc (rq_len q') = rq_len q"
    using ring_len_read [OF w(1,2) ne'] s' by (simp add: rq_len_def q'_def)
  then have len': "rq_len q' = length xs" using len by simp
  have "x # xs = items q ! ?s # rq_contents q'"
    using ne ring_list_Cons [of ?s "items q" "length xs"] w s'
    by (simp add: rq_contents_def len len') (simp add: q'_def)
  moreover have "rq_wf q'"
    using wf s' by (simp add: rq_wf_def q'_def)
  ultimately show ?thesis
    using deq by (simp add: rq_capacity_def q'_def)
qed

lemma count_contents:
  assumes wf: "rq_wf q"
  shows "count q = Inr (word_of_nat (length (rq_contents q)))"
proof -
  let ?n = "unat (maxSize q)" and ?s = "unat (rq_start q)" and ?e = "unat (rq_end q)"
  have w: "?s < ?n" "?e < ?n" "?n \<le> 2 ^ 63" using wf by (auto simp: rq_wf_def)
  then have nz: "maxSize q \<noteq> 0" by auto
  have "unat (rq_end q + maxSize q) = ?e + ?n"
    using w by (simp add: unat_word_ariths)
  moreover have "rq_start q \<le> rq_end q + maxSize q"
    using w calculation by (simp add: word_le_nat_alt)
  ultimately have "unat (rq_end q + maxSize q - rq_start q) = ?e + ?n - ?s"
    by (simp add: unat_sub)
  then have "unat ((rq_end q + maxSize q - rq_start q) mod maxSize q) = rq_len q"
    by (simp add: unat_mod_distrib rq_len_def ring_len_def)
  then show ?thesis
    using nz by (simp add: count_def size_mod_def) (metis word_of_nat_unat_eq)
qed

section \<open>Runs of operations and the bounded FIFO interface\<close>

text \<open>
  A client sees the queue as a sequence of calls and replies. \<open>queue_run\<close> runs a list of calls on
  given operations (an exception leaves the queue as it was); \<open>fifo_run\<close> is the same client on a
  plain list of at most \<open>cap\<close> items.
\<close>

datatype 'a queue_op = Enqueue 'a | Dequeue | Count

datatype 'a queue_reply = Status int | Item 'a | Size size_t | Thrown failure

fun queue_run ::
  "('q \<Rightarrow> 'a \<Rightarrow> (int \<times> 'q) res) \<Rightarrow> ('q \<Rightarrow> ('a \<times> 'q) res) \<Rightarrow> ('q \<Rightarrow> size_t res) \<Rightarrow>
   'q \<Rightarrow> 'a queue_op list \<Rightarrow> 'a queue_reply list \<times> 'q" where
  "queue_run enq deq cnt q [] = ([], q)"
| "queue_run enq deq cnt q (op # ops) =
     (let (reply, q') = (case op of
          Enqueue x \<Rightarrow> (case enq q x of Inr (r, q') \<Rightarrow> (Status r, q') | Inl e \<Rightarrow> (Thrown e, q))
        | Dequeue \<Rightarrow> (case deq q of Inr (x, q') \<Rightarrow> (Item x, q') | Inl e \<Rightarrow> (Thrown e, q))
        | Count \<Rightarrow> (case cnt q of Inr n \<Rightarrow> (Size n, q) | Inl e \<Rightarrow> (Thrown e, q)));
       (replies, q'') = queue_run enq deq cnt q' ops
      in (reply # replies, q''))"

definition empty_queue_error :: failure where
  "empty_queue_error = RuntimeError ''Attempt to dequeue on empty RequestQueue!''"

fun fifo_step :: "nat \<Rightarrow> 'a list \<Rightarrow> 'a queue_op \<Rightarrow> 'a queue_reply \<times> 'a list" where
  "fifo_step cap xs (Enqueue x) =
     (if length xs < cap then (Status 0, xs @ [x]) else (Status (-1), xs))"
| "fifo_step cap [] Dequeue = (Thrown empty_queue_error, [])"
| "fifo_step cap (x # xs) Dequeue = (Item x, xs)"
| "fifo_step cap xs Count = (Size (word_of_nat (length xs)), xs)"

fun fifo_run :: "nat \<Rightarrow> 'a list \<Rightarrow> 'a queue_op list \<Rightarrow> 'a queue_reply list \<times> 'a list" where
  "fifo_run cap xs [] = ([], xs)"
| "fifo_run cap xs (op # ops) =
     (let (reply, xs') = fifo_step cap xs op; (replies, xs'') = fifo_run cap xs' ops
      in (reply # replies, xs''))"

text \<open>What a run put in and took out, read off its calls and replies.\<close>

fun accepted :: "'a queue_op list \<Rightarrow> 'a queue_reply list \<Rightarrow> 'a list" where
  "accepted (Enqueue x # ops) (Status r # rs) = (if r = 0 then [x] else []) @ accepted ops rs"
| "accepted (_ # ops) (_ # rs) = accepted ops rs"
| "accepted _ _ = []"

fun delivered :: "'a queue_reply list \<Rightarrow> 'a list" where
  "delivered (Item x # rs) = x # delivered rs"
| "delivered (_ # rs) = delivered rs"
| "delivered [] = []"

lemma fifo_conserves:
  "fifo_run cap xs ops = (replies, ys) \<Longrightarrow> delivered replies @ ys = xs @ accepted ops replies"
proof (induction ops arbitrary: xs replies)
  case Nil
  then show ?case by auto
next
  case (Cons op ops)
  obtain reply xs' where st: "fifo_step cap xs op = (reply, xs')" by fastforce
  obtain rs where run: "fifo_run cap xs' ops = (rs, ys)" and r: "replies = reply # rs"
    using Cons.prems st by (auto split: prod.splits)
  have "delivered rs @ ys = xs' @ accepted ops rs" by (rule Cons.IH [OF run])
  then show ?case
    using st r by (cases "(cap, xs, op)" rule: fifo_step.cases) (auto split: if_splits)
qed

lemma fifo_bounded: "length xs \<le> cap \<Longrightarrow> length (snd (fifo_run cap xs ops)) \<le> cap"
proof (induction ops arbitrary: xs)
  case (Cons op ops)
  have "length (snd (fifo_step cap xs op)) \<le> cap"
    using Cons.prems by (cases "(cap, xs, op)" rule: fifo_step.cases) auto
  then show ?case using Cons.IH by (auto split: prod.splits) (metis snd_conv)
qed simp

locale bounded_fifo =
  fixes enq :: "'q \<Rightarrow> 'a \<Rightarrow> (int \<times> 'q) res"
    and deq :: "'q \<Rightarrow> ('a \<times> 'q) res"
    and cnt :: "'q \<Rightarrow> size_t res"
    and ok :: "'q \<Rightarrow> bool"
    and contents :: "'q \<Rightarrow> 'a list"
    and cap :: "'q \<Rightarrow> nat"
  assumes within: "ok q \<Longrightarrow> length (contents q) \<le> cap q"
    and enq_room: "ok q \<Longrightarrow> length (contents q) < cap q \<Longrightarrow>
      \<exists>q'. enq q x = Inr (0, q') \<and> ok q' \<and> contents q' = contents q @ [x] \<and> cap q' = cap q"
    and enq_full: "ok q \<Longrightarrow> length (contents q) = cap q \<Longrightarrow> enq q x = Inr (-1, q)"
    and deq_front: "ok q \<Longrightarrow> contents q = x # xs \<Longrightarrow>
      \<exists>q'. deq q = Inr (x, q') \<and> ok q' \<and> contents q' = xs \<and> cap q' = cap q"
    and deq_empty: "ok q \<Longrightarrow> contents q = [] \<Longrightarrow> deq q = Inl empty_queue_error"
    and cnt_length: "ok q \<Longrightarrow> cnt q = Inr (word_of_nat (length (contents q)))"
begin

lemma enq_cases:
  assumes "ok q"
  obtains q' where "enq q x = Inr (0, q')" "ok q'" "contents q' = contents q @ [x]"
      "cap q' = cap q" "length (contents q) < cap q"
    | "enq q x = Inr (-1, q)" "length (contents q) = cap q"
  using enq_room [OF assms] enq_full [OF assms] within [OF assms] by (metis nat_less_le)

lemma run_step:
  assumes "ok q"
  shows "\<exists>q'. queue_run enq deq cnt q (op # ops) =
            (let (rs, q'') = queue_run enq deq cnt q' ops
             in (fst (fifo_step (cap q) (contents q) op) # rs, q'')) \<and>
           ok q' \<and> contents q' = snd (fifo_step (cap q) (contents q) op) \<and> cap q' = cap q"
proof (cases op)
  case (Enqueue x)
  from assms show ?thesis
    by (rule enq_cases [where x = x]) (auto simp: Enqueue assms)
next
  case Dequeue
  show ?thesis
  proof (cases "contents q")
    case Nil
    then show ?thesis using deq_empty [OF assms] by (auto simp: Dequeue assms)
  next
    case (Cons x xs)
    then show ?thesis using deq_front [OF assms] by (fastforce simp: Dequeue)
  qed
next
  case Count
  then show ?thesis using cnt_length [OF assms] by (auto simp: assms)
qed

lemma run_refines:
  assumes "ok q" and "queue_run enq deq cnt q ops = (replies, q')"
  shows "fifo_run (cap q) (contents q) ops = (replies, contents q') \<and> ok q' \<and> cap q' = cap q"
  using assms
proof (induction ops arbitrary: q replies)
  case (Cons op ops)
  obtain q1 where q1: "queue_run enq deq cnt q (op # ops) =
      (let (rs, q'') = queue_run enq deq cnt q1 ops
       in (fst (fifo_step (cap q) (contents q) op) # rs, q''))"
      "ok q1" "contents q1 = snd (fifo_step (cap q) (contents q) op)" "cap q1 = cap q"
    using run_step [OF Cons.prems(1)] by blast
  obtain rs where rs: "queue_run enq deq cnt q1 ops = (rs, q')"
      "replies = fst (fifo_step (cap q) (contents q) op) # rs"
    using Cons.prems(2) q1(1) by (auto split: prod.splits)
  from Cons.IH [OF q1(2) rs(1)] show ?case
    using q1(3,4) rs(2) by (auto split: prod.splits)
qed simp

lemma run_conserves:
  assumes "ok q" and "queue_run enq deq cnt q ops = (replies, q')"
  shows "delivered replies @ contents q' = contents q @ accepted ops replies"
    and "length (contents q') \<le> cap q"
  using run_refines [OF assms] fifo_conserves within by metis+

end

interpretation ring: bounded_fifo enqueue dequeue count rq_wf rq_contents rq_capacity
  by unfold_locales
    (auto simp: rq_len_le_capacity enqueue_full enqueue_room dequeue_front count_contents
      dequeue_empty empty_queue_error_def)

section \<open>Properties\<close>

text \<open>C6: whatever calls are made on a new queue of \<open>n\<close> slots, the replies are those of a plain
  first-in first-out list of at most \<open>n - 1\<close> items: the same status codes, items, counts and
  exceptions, and what was accepted is what was delivered followed by what is still inside.\<close>

theorem queue_refines_fifo:
  assumes "0 < unat n" and "unat n \<le> 2 ^ 63"
  shows "let (replies, q) = queue_run enqueue dequeue count (new_RequestQueue d n) ops
    in fifo_run (unat n - 1) [] ops = (replies, rq_contents q) \<and>
       accepted ops replies = delivered replies @ rq_contents q \<and> rq_len q \<le> unat n - 1"
proof -
  have ok: "rq_wf (new_RequestQueue d n)" using assms by (rule rq_wf_new)
  obtain replies q where run:
    "queue_run enqueue dequeue count (new_RequestQueue d n) ops = (replies, q)" by fastforce
  show ?thesis
    using ring.run_refines [OF ok run] ring.run_conserves [OF ok run] by (simp add: run)
qed

theorem queue_refines_fifo_witness:
  "let (replies, q) = queue_run enqueue dequeue count (new_RequestQueue (0 :: nat) 3)
       [Enqueue 1, Enqueue 2, Enqueue 3, Dequeue, Enqueue 4, Count]
   in fifo_run (unat (3 :: size_t) - 1) [] [Enqueue 1, Enqueue 2, Enqueue 3, Dequeue, Enqueue 4, Count] =
        (replies, rq_contents q) \<and>
      accepted [Enqueue 1, Enqueue 2, Enqueue 3, Dequeue, Enqueue 4, Count] replies =
        delivered replies @ rq_contents q \<and> rq_len q \<le> unat (3 :: size_t) - 1"
  by (rule queue_refines_fifo) simp_all

text \<open>The queue never takes more than \<open>n - 1\<close> items, one less than the number its constructor is
  given; with \<open>n = 1\<close> it rejects every request, and with \<open>n = 0\<close> (which the command line allows)
  both \<open>enqueue\<close> and \<open>count\<close> divide by zero.\<close>

lemma queue_size_edge_cases:
  "enqueue (new_RequestQueue d 1) x = Inr (-1, new_RequestQueue d 1) \<and>
   enqueue (new_RequestQueue d 0) x = Inl (Undefined ''division by zero'') \<and>
   count (new_RequestQueue d 0) = Inl (Undefined ''division by zero'')"
  using enqueue_full [of "new_RequestQueue d 1" x]
  by (simp add: rq_wf_new rq_len_def ring_len_def rq_capacity_def)
    (simp add: new_RequestQueue_def enqueue_def count_def size_mod_def)

end
