(* ===== verification/QueueThreads.thy ===== *)
theory QueueThreads
  imports RequestQueue
begin

text \<open>
  The request queue under its two threads: the server thread calls \<open>enqueue\<close>, the request handler
  thread runs the loop of \<open>_requestQueueThread\<close> (\<open>src/main.cpp\<close>), which calls \<open>count\<close> and
  \<open>dequeue\<close>. \<open>start\<close> and \<open>end\<close> are sequentially consistent atomics, so an execution is an
  interleaving of their loads, increments and stores with the copies into and out of the slots.
  Each thread's own position is written by that thread alone, so its loads of it are not separate
  steps. Positions are natural numbers here: they stay at most \<open>maxSize\<close>.
\<close>

section \<open>State and steps\<close>

text \<open>
  Where the server thread is in \<open>enqueue\<close>: not in it, about to evaluate the fullness test, about to
  store the item, about to increment \<open>end\<close>, about to run the reset test.
\<close>

datatype 'a enq_pc = EnqIdle | EnqTest 'a | EnqStore 'a | EnqIncr 'a | EnqReset

text \<open>
  Where the handler thread is: about to evaluate \<open>queue.count()\<close>, then in \<open>dequeue\<close> about to
  evaluate the emptiness test, about to copy the item, to increment \<open>start\<close>, to run the reset
  test; or dead by the exception of \<open>dequeue\<close>, which nothing catches.
\<close>

datatype 'a deq_pc = DeqPoll | DeqTest | DeqCopy | DeqIncr 'a | DeqReset 'a | DeqThrown

text \<open>
  \<open>sent\<close> and \<open>got\<close> are ghost state: the items published by an increment of \<open>end\<close> and those taken
  by an increment of \<open>start\<close>.
\<close>

record 'a threads =
  ring_size :: nat
  slots :: "'a list"
  start_pos :: nat
  end_pos :: nat
  enq_at :: "'a enq_pc"
  deq_at :: "'a deq_pc"
  sent :: "'a list"
  got :: "'a list"

definition threads_init :: "'a \<Rightarrow> nat \<Rightarrow> 'a threads" where
  "threads_init d n = \<lparr>ring_size = n, slots = replicate n d, start_pos = 0, end_pos = 0,
     enq_at = EnqIdle, deq_at = DeqPoll, sent = [], got = []\<rparr>"

text \<open>One step of the server thread; \<open>x\<close> is the item of the next call when it starts one.\<close>

definition enqueue_step :: "'a \<Rightarrow> 'a threads \<Rightarrow> 'a threads" where
  "enqueue_step x s = (case enq_at s of
       EnqIdle \<Rightarrow> s\<lparr>enq_at := EnqTest x\<rparr>
     | EnqTest y \<Rightarrow>
         if start_pos s = (end_pos s + 1) mod ring_size s then s\<lparr>enq_at := EnqIdle\<rparr>
         else s\<lparr>enq_at := EnqStore y\<rparr>
     | EnqStore y \<Rightarrow> s\<lparr>slots := (slots s)[end_pos s := y], enq_at := EnqIncr y\<rparr>
     | EnqIncr y \<Rightarrow> s\<lparr>end_pos := end_pos s + 1, enq_at := EnqReset, sent := sent s @ [y]\<rparr>
     | EnqReset \<Rightarrow>
         s\<lparr>end_pos := (if ring_size s \<le> end_pos s then 0 else end_pos s), enq_at := EnqIdle\<rparr>)"

text \<open>One step of the handler thread.\<close>

definition handler_step :: "'a threads \<Rightarrow> 'a threads" where
  "handler_step s = (case deq_at s of
       DeqPoll \<Rightarrow>
         if (end_pos s + ring_size s - start_pos s) mod ring_size s \<noteq> 0
         then s\<lparr>deq_at := DeqTest\<rparr> else s
     | DeqTest \<Rightarrow>
         if start_pos s = end_pos s then s\<lparr>deq_at := DeqThrown\<rparr> else s\<lparr>deq_at := DeqCopy\<rparr>
     | DeqCopy \<Rightarrow> s\<lparr>deq_at := DeqIncr (slots s ! start_pos s)\<rparr>
     | DeqIncr y \<Rightarrow> s\<lparr>start_pos := start_pos s + 1, deq_at := DeqReset y, got := got s @ [y]\<rparr>
     | DeqReset y \<Rightarrow>
         s\<lparr>start_pos := (if ring_size s \<le> start_pos s then 0 else start_pos s), deq_at := DeqPoll\<rparr>
     | DeqThrown \<Rightarrow> s)"

inductive reachable :: "'a \<Rightarrow> nat \<Rightarrow> 'a threads \<Rightarrow> bool" for d n where
  start: "reachable d n (threads_init d n)"
| server: "reachable d n s \<Longrightarrow> reachable d n (enqueue_step x s)"
| handler: "reachable d n s \<Longrightarrow> reachable d n (handler_step s)"

text \<open>
  The overlap: the server thread evaluates the fullness test between the handler's increment of
  \<open>start\<close> to \<open>maxSize\<close> and its reset to 0. \<open>reachable_apart\<close> are the states of the executions in
  which that never happens.
\<close>

definition test_in_reset_window :: "'a threads \<Rightarrow> bool" where
  "test_in_reset_window s \<longleftrightarrow>
     (case enq_at s of EnqTest _ \<Rightarrow> True | _ \<Rightarrow> False) \<and> start_pos s = ring_size s"

inductive reachable_apart :: "'a \<Rightarrow> nat \<Rightarrow> 'a threads \<Rightarrow> bool" for d n where
  start: "reachable_apart d n (threads_init d n)"
| server: "reachable_apart d n s \<Longrightarrow> \<not> test_in_reset_window s \<Longrightarrow>
    reachable_apart d n (enqueue_step x s)"
| handler: "reachable_apart d n s \<Longrightarrow> reachable_apart d n (handler_step s)"

text \<open>A schedule: which thread moves, and with which item when the server thread does.\<close>

datatype 'a turn = Server 'a | Handler

fun turn_step :: "'a turn \<Rightarrow> 'a threads \<Rightarrow> 'a threads" where
  "turn_step (Server x) s = enqueue_step x s"
| "turn_step Handler s = handler_step s"

definition run_schedule :: "'a turn list \<Rightarrow> 'a threads \<Rightarrow> 'a threads" where
  "run_schedule ts s = fold turn_step ts s"

lemma reachable_schedule: "reachable d n s \<Longrightarrow> reachable d n (run_schedule ts s)"
proof (induction ts arbitrary: s)
  case (Cons t ts)
  then have "reachable d n (turn_step t s)"
    by (cases t) (auto intro: reachable.intros)
  from Cons.IH [OF this] show ?case by (simp add: run_schedule_def)
qed (simp add: run_schedule_def)

section \<open>Bounds that hold in every interleaving\<close>

definition threads_bounds :: "nat \<Rightarrow> 'a threads \<Rightarrow> bool" where
  "threads_bounds n s \<longleftrightarrow>
     ring_size s = n \<and> length (slots s) = n \<and> start_pos s \<le> n \<and> end_pos s \<le> n \<and>
     (end_pos s = n \<longrightarrow> enq_at s = EnqReset) \<and>
     (start_pos s = n \<longrightarrow> (\<exists>y. deq_at s = DeqReset y))"

lemma threads_bounds_init: "0 < n \<Longrightarrow> threads_bounds n (threads_init d n)"
  by (simp add: threads_bounds_def threads_init_def)

lemma threads_bounds_enqueue:
  "0 < n \<Longrightarrow> threads_bounds n s \<Longrightarrow> threads_bounds n (enqueue_step x s)"
  by (auto simp: threads_bounds_def enqueue_step_def split: enq_pc.splits)

lemma threads_bounds_handler:
  "0 < n \<Longrightarrow> threads_bounds n s \<Longrightarrow> threads_bounds n (handler_step s)"
  by (auto simp: threads_bounds_def handler_step_def split: deq_pc.splits)

lemma reachable_bounds: "reachable d n s \<Longrightarrow> 0 < n \<Longrightarrow> threads_bounds n s"
  by (induction rule: reachable.induct)
    (auto intro: threads_bounds_init threads_bounds_enqueue threads_bounds_handler)

section \<open>First-in first-out when the threads keep apart\<close>

definition pending_len :: "'a threads \<Rightarrow> nat" where
  "pending_len s =
     ring_len (ring_size s) (start_pos s mod ring_size s) (end_pos s mod ring_size s)"

definition pending :: "'a threads \<Rightarrow> 'a list" where
  "pending s = ring_list (slots s) (start_pos s mod ring_size s) (pending_len s)"

text \<open>
  What each program counter knows: a passed fullness test means there is still room (the handler
  only makes more), a stored item is in its slot, a passed \<open>count\<close> means the queue is still not
  empty, a copied item is the front one.
\<close>

definition enq_knows :: "'a threads \<Rightarrow> bool" where
  "enq_knows s = (case enq_at s of
       EnqStore y \<Rightarrow> pending_len s + 1 < ring_size s
     | EnqIncr y \<Rightarrow> pending_len s + 1 < ring_size s \<and> slots s ! end_pos s = y
     | _ \<Rightarrow> True)"

definition deq_knows :: "'a threads \<Rightarrow> bool" where
  "deq_knows s = (case deq_at s of
       DeqTest \<Rightarrow> 0 < pending_len s
     | DeqCopy \<Rightarrow> 0 < pending_len s
     | DeqIncr y \<Rightarrow> 0 < pending_len s \<and> slots s ! start_pos s = y
     | DeqThrown \<Rightarrow> False
     | _ \<Rightarrow> True)"

definition threads_inv :: "nat \<Rightarrow> 'a threads \<Rightarrow> bool" where
  "threads_inv n s \<longleftrightarrow>
     threads_bounds n s \<and> enq_knows s \<and> deq_knows s \<and> sent s = got s @ pending s"

lemmas threads_defs = pending_len_def pending_def enq_knows_def deq_knows_def

lemma threads_inv_init: "0 < n \<Longrightarrow> threads_inv n (threads_init d n)"
  using threads_bounds_init [of n d]
  by (simp add: threads_inv_def threads_defs threads_init_def ring_len_def)

lemma mod_self_wrap: "(e::nat) \<le> n \<Longrightarrow> 0 < n \<Longrightarrow> (if n \<le> e then 0 else e) = e mod n"
  by (auto simp: le_less)


lemma pending_frame [simp]:
  "pending_len (s\<lparr>enq_at := a\<rparr>) = pending_len s"
  "pending_len (s\<lparr>deq_at := b\<rparr>) = pending_len s"
  "pending (s\<lparr>enq_at := a\<rparr>) = pending s"
  "pending (s\<lparr>deq_at := b\<rparr>) = pending s"
  by (simp_all add: pending_def pending_len_def)

text \<open>Where the positions are, and where the next item goes: behind the pending ones.\<close>

lemma threads_positions:
  assumes "0 < n" and "threads_bounds n s"
  shows "(start_pos s mod n + pending_len s) mod n = end_pos s mod n"
    and "pending_len s < n"
    and "start_pos s mod n = end_pos s mod n \<longleftrightarrow> pending_len s = 0"
    and "(\<forall>y. deq_at s \<noteq> DeqReset y) \<Longrightarrow> start_pos s mod n = start_pos s \<and> start_pos s < n"
    and "enq_at s \<noteq> EnqReset \<Longrightarrow> end_pos s mod n = end_pos s \<and> end_pos s < n"
proof -
  have b: "ring_size s = n" "start_pos s \<le> n" "end_pos s \<le> n"
    using assms(2) by (auto simp: threads_bounds_def)
  have m: "start_pos s mod n < n" "end_pos s mod n < n" using assms(1) by auto
  show "(start_pos s mod n + pending_len s) mod n = end_pos s mod n"
    unfolding pending_len_def b(1) by (rule ring_write_pos [OF m])
  show "pending_len s < n"
    unfolding pending_len_def b(1) by (rule ring_len_less [OF assms(1)])
  show "start_pos s mod n = end_pos s mod n \<longleftrightarrow> pending_len s = 0"
    unfolding pending_len_def b(1) by (rule ring_len_zero_iff [OF m, symmetric])
  show "start_pos s mod n = start_pos s \<and> start_pos s < n" if "\<forall>y. deq_at s \<noteq> DeqReset y"
    using that assms(2) b(2) by (cases "start_pos s = n") (auto simp: threads_bounds_def)
  show "end_pos s mod n = end_pos s \<and> end_pos s < n" if "enq_at s \<noteq> EnqReset"
    using that assms(2) b(3) by (cases "end_pos s = n") (auto simp: threads_bounds_def)
qed

lemma threads_inv_enqueue:
  assumes n: "0 < n" and inv: "threads_inv n s" and apart: "\<not> test_in_reset_window s"
  shows "threads_inv n (enqueue_step x s)"
proof -
  let ?s' = "enqueue_step x s"
  have b: "threads_bounds n s" and b': "threads_bounds n ?s'"
    using inv threads_bounds_enqueue [OF n] by (auto simp: threads_inv_def)
  note pos = threads_positions [OF n b]
  have rs: "ring_size s = n" "length (slots s) = n" using b by (auto simp: threads_bounds_def)
  show ?thesis
  proof (cases "enq_at s")
    case EnqIdle
    then show ?thesis
      using inv b'
      by (auto simp: threads_inv_def enq_knows_def deq_knows_def enqueue_step_def
          split: deq_pc.splits)
  next
    case (EnqTest y)
    then have st: "start_pos s < n" "end_pos s < n"
      using apart pos(5) b by (auto simp: test_in_reset_window_def threads_bounds_def)
    then have "pending_len s + 1 < n" if "start_pos s \<noteq> (end_pos s + 1) mod n"
      using ring_full_iff [of "start_pos s" n "end_pos s"] that pos(2) rs
      by (auto simp: pending_len_def)
    then show ?thesis
      using EnqTest inv b' rs
      by (auto simp: threads_inv_def enq_knows_def deq_knows_def enqueue_step_def
          split: deq_pc.splits)
  next
    case (EnqStore y)
    then have e: "end_pos s mod n = end_pos s" "end_pos s < n" using pos(5) by auto
    have pend: "pending ?s' = pending s"
      using EnqStore ring_list_store_free [of "start_pos s mod n" "slots s" "pending_len s" y]
        pos(1,2) e rs n
      by (simp add: enqueue_step_def pending_def pending_len_def)
    have "start_pos s \<noteq> end_pos s" if "deq_at s = DeqIncr z" for z
      using that inv pos(3,4) e by (auto simp: threads_inv_def deq_knows_def)
    then show ?thesis
      using EnqStore inv b' e rs pend
      by (auto simp: threads_inv_def enq_knows_def deq_knows_def pending_len_def enqueue_step_def
          split: deq_pc.splits)
  next
    case (EnqIncr y)
    then have e: "end_pos s mod n = end_pos s" "end_pos s < n" using pos(5) by auto
    have know: "pending_len s + 1 < n" "slots s ! end_pos s = y"
      using EnqIncr inv rs by (auto simp: threads_inv_def enq_knows_def)
    have "start_pos s mod n \<noteq> (end_pos s + 1) mod n"
      using ring_full_iff [of "start_pos s mod n" n "end_pos s"] know(1) n e rs
      by (auto simp: pending_len_def)
    then have len: "pending_len ?s' = Suc (pending_len s)"
      using EnqIncr ring_len_write [of "start_pos s mod n" n "end_pos s"] n e rs
      by (simp add: enqueue_step_def pending_len_def)
    then have "pending ?s' = pending s @ [y]"
      using EnqIncr know pos(1) e rs
      by (simp add: pending_def ring_list_Suc) (simp add: enqueue_step_def)
    then show ?thesis
      using EnqIncr inv b' len
      by (auto simp: threads_inv_def enq_knows_def deq_knows_def enqueue_step_def
          split: deq_pc.splits)
  next
    case EnqReset
    have "(if n \<le> end_pos s then 0 else end_pos s) mod n = end_pos s mod n"
      using b n by (auto simp: threads_bounds_def mod_self_wrap)
    then have len: "pending_len ?s' = pending_len s"
      using EnqReset rs by (simp add: enqueue_step_def pending_len_def)
    then have "pending ?s' = pending s"
      using EnqReset by (simp add: pending_def enqueue_step_def)
    then show ?thesis
      using EnqReset inv b' len
      by (auto simp: threads_inv_def enq_knows_def deq_knows_def enqueue_step_def
          split: deq_pc.splits)
  qed
qed

lemma threads_inv_handler:
  assumes n: "0 < n" and inv: "threads_inv n s"
  shows "threads_inv n (handler_step s)"
proof -
  let ?s' = "handler_step s"
  have b: "threads_bounds n s" and b': "threads_bounds n ?s'"
    using inv threads_bounds_handler [OF n] by (auto simp: threads_inv_def)
  note pos = threads_positions [OF n b]
  have rs: "ring_size s = n" "length (slots s) = n" using b by (auto simp: threads_bounds_def)
  show ?thesis
  proof (cases "deq_at s")
    case DeqPoll
    then have "(end_pos s + n - start_pos s) mod n = pending_len s"
      using ring_len_mod_end [of "start_pos s" n "end_pos s"] pos(4) b rs
      by (auto simp: pending_len_def threads_bounds_def)
    then show ?thesis
      using DeqPoll inv b' rs
      by (auto simp: threads_inv_def enq_knows_def deq_knows_def handler_step_def
          split: enq_pc.splits)
  next
    case DeqTest
    then have "0 < pending_len s" using inv by (simp add: threads_inv_def deq_knows_def)
    then have "start_pos s \<noteq> end_pos s" using pos(3) by auto
    then show ?thesis
      using DeqTest inv b' \<open>0 < pending_len s\<close>
      by (auto simp: threads_inv_def enq_knows_def deq_knows_def handler_step_def
          split: enq_pc.splits)
  next
    case DeqCopy
    then show ?thesis
      using inv b'
      by (auto simp: threads_inv_def enq_knows_def deq_knows_def handler_step_def
          split: enq_pc.splits)
  next
    case (DeqIncr y)
    then have st: "start_pos s mod n = start_pos s" "start_pos s < n" using pos(4) by auto
    have know: "0 < pending_len s" "slots s ! start_pos s = y"
      using DeqIncr inv by (auto simp: threads_inv_def deq_knows_def)
    have "Suc (pending_len ?s') = pending_len s"
      using DeqIncr ring_len_read [of "start_pos s" n "end_pos s mod n"] pos(3) know(1) st n rs
      by (simp add: handler_step_def pending_len_def mod_simps)
    moreover then have "pending s = y # pending ?s'"
      using DeqIncr ring_list_Cons [of "start_pos s" "slots s" "pending_len ?s'"] know st rs
      by (simp add: pending_def) (simp add: handler_step_def)
    ultimately show ?thesis
      using DeqIncr inv b'
      by (auto simp: threads_inv_def enq_knows_def deq_knows_def handler_step_def
          split: enq_pc.splits)
  next
    case (DeqReset y)
    have wrap: "(if n \<le> start_pos s then 0 else start_pos s) mod n = start_pos s mod n"
      using b n by (auto simp: threads_bounds_def mod_self_wrap)
    then have len: "pending_len ?s' = pending_len s"
      using DeqReset rs by (simp add: handler_step_def pending_len_def)
    then have "pending ?s' = pending s"
      using DeqReset rs wrap by (simp add: pending_def handler_step_def)
    then show ?thesis
      using DeqReset inv b' len
      by (auto simp: threads_inv_def enq_knows_def deq_knows_def handler_step_def
          split: enq_pc.splits)
  next
    case DeqThrown
    then show ?thesis using inv by (simp add: threads_inv_def deq_knows_def)
  qed
qed

lemma reachable_apart_inv: "reachable_apart d n s \<Longrightarrow> 0 < n \<Longrightarrow> threads_inv n s"
  by (induction rule: reachable_apart.induct)
    (auto intro: threads_inv_init threads_inv_enqueue threads_inv_handler)


section \<open>Executions in which the threads overlap\<close>

text \<open>
  The two schedules below run the threads on a small ring. \<open>enqueue_turns x\<close> is a whole call of
  \<open>enqueue\<close> that finds room, \<open>take_turns\<close> a whole round of the handler loop that takes an item.
\<close>

definition enqueue_turns :: "'a \<Rightarrow> 'a turn list" where
  "enqueue_turns x = replicate 5 (Server x)"

definition take_turns :: "'a turn list" where
  "take_turns = replicate 5 Handler"

text \<open>
  Two slots. After one item has gone through, a second one sits in slot 1; the handler takes it and
  stops between the increment of \<open>start\<close> to 2 and its reset. In that window the server thread
  stores a third item and, seeing \<open>start = 2\<close>, passes the fullness test for a fourth.
\<close>

definition overlap_schedule :: "nat turn list" where
  "overlap_schedule = enqueue_turns 1 @ take_turns @ enqueue_turns 2 @ replicate 4 Handler @
     enqueue_turns 3 @ replicate 2 (Server 4)"

definition lossy_schedule :: "nat turn list" where
  "lossy_schedule = overlap_schedule @ replicate 3 (Server 4) @ [Handler]"

definition throwing_schedule :: "nat turn list" where
  "throwing_schedule =
     overlap_schedule @ replicate 2 Handler @ replicate 3 (Server 4) @ [Handler]"

lemmas schedule_defs = lossy_schedule_def throwing_schedule_def overlap_schedule_def
  enqueue_turns_def take_turns_def run_schedule_def

lemma lossy_schedule_result:
  "run_schedule lossy_schedule (threads_init 0 2) =
     \<lparr>ring_size = 2, slots = [3, 4], start_pos = 0, end_pos = 0, enq_at = EnqIdle,
      deq_at = DeqPoll, sent = [1, 2, 3, 4], got = [1, 2]\<rparr>"
  by code_simp

lemma throwing_schedule_result:
  "deq_at (run_schedule throwing_schedule (threads_init 0 2)) = DeqThrown"
  by code_simp

section \<open>One thread alone\<close>

text \<open>
  The sequential operations of \<open>RequestQueue\<close> are the step sequences of one thread that no other
  thread interrupts. \<open>as_threads\<close> is the state of the threads outside their operations.
\<close>

definition as_threads :: "'a request_queue \<Rightarrow> 'a list \<Rightarrow> 'a list \<Rightarrow> 'a threads" where
  "as_threads q snt gt = \<lparr>ring_size = unat (maxSize q), slots = items q,
     start_pos = unat (rq_start q), end_pos = unat (rq_end q), enq_at = EnqIdle, deq_at = DeqPoll,
     sent = snt, got = gt\<rparr>"

lemma run_schedule_Cons [simp]: "run_schedule (t # ts) s = run_schedule ts (turn_step t s)"
  by (simp add: run_schedule_def)

lemma run_schedule_Nil [simp]: "run_schedule [] s = s"
  by (simp add: run_schedule_def)

lemma enqueue_alone:
  assumes "rq_wf q"
  shows "\<exists>r q'. enqueue q x = Inr (r, q') \<and>
    run_schedule (replicate (if r = 0 then 5 else 2) (Server x)) (as_threads q snt gt) =
      as_threads q' (if r = 0 then snt @ [x] else snt) gt"
proof -
  have w: "unat (rq_end q) < unat (maxSize q)" "unat (maxSize q) \<le> 2 ^ 63"
      "length (items q) = unat (maxSize q)"
    using assms by (auto simp: rq_wf_def)
  obtain nxt where nxt: "size_mod (rq_end q + 1) (maxSize q) = Inr nxt"
      "unat nxt = (unat (rq_end q) + 1) mod unat (maxSize q)"
    using size_mod_next [OF w(1,2)] by blast
  show ?thesis
  proof (cases "rq_start q = nxt")
    case True
    then have "unat (rq_start q) = (unat (rq_end q) + 1) mod unat (maxSize q)" using nxt(2) by simp
    moreover have "replicate 2 (Server x) = [Server x, Server x]" by (simp add: numeral_eq_Suc)
    ultimately show ?thesis
      using True nxt(1)
      by (intro exI [of _ "-1"] exI [of _ q])
        (simp add: enqueue_def as_threads_def enqueue_step_def)
  next
    case False
    then have "unat (rq_start q) \<noteq> (unat (rq_end q) + 1) mod unat (maxSize q)"
      using nxt(2) by (metis word_unat_eq_iff)
    moreover have "unat (rq_end q + 1) = unat (rq_end q) + 1"
      "maxSize q \<le> rq_end q + 1 \<longleftrightarrow> unat (maxSize q) \<le> unat (rq_end q) + 1"
      using w by (simp_all add: word_le_nat_alt unat_Suc_pos)
    moreover have "replicate 5 (Server x) = [Server x, Server x, Server x, Server x, Server x]"
      by (simp add: numeral_eq_Suc)
    moreover define q' where "q' = q\<lparr>items := (items q)[unat (rq_end q) := x],
      rq_end := (if maxSize q \<le> rq_end q + 1 then 0 else rq_end q + 1)\<rparr>"
    ultimately show ?thesis
      using False nxt(1) w
      by (intro exI [of _ 0] exI [of _ q'])
        (simp add: enqueue_def as_threads_def enqueue_step_def)
  qed
qed

lemma dequeue_alone:
  fixes q :: "'a request_queue"
  assumes "rq_wf q" and "rq_contents q \<noteq> []"
  shows "\<exists>y q'. dequeue q = Inr (y, q') \<and>
    run_schedule (replicate 5 Handler) (as_threads q snt gt) = as_threads q' snt (gt @ [y])"
proof -
  have w: "unat (rq_start q) < unat (maxSize q)" "unat (maxSize q) \<le> 2 ^ 63"
      "length (items q) = unat (maxSize q)" "unat (rq_end q) < unat (maxSize q)"
    using assms(1) by (auto simp: rq_wf_def)
  have "rq_len q \<noteq> 0" using assms(2) by (metis rq_contents_length length_0_conv)
  then have poll: "(unat (rq_end q) + unat (maxSize q) - unat (rq_start q)) mod unat (maxSize q) \<noteq> 0"
    and ne: "unat (rq_start q) \<noteq> unat (rq_end q)"
    using ring_len_zero_iff [OF w(1,4)] by (auto simp: rq_len_def ring_len_def)
  have "unat (rq_start q + 1) = unat (rq_start q) + 1"
    "maxSize q \<le> rq_start q + 1 \<longleftrightarrow> unat (maxSize q) \<le> unat (rq_start q) + 1"
    using w by (simp_all add: word_le_nat_alt unat_Suc_pos)
  moreover have "replicate 5 (Handler :: 'a turn) = [Handler, Handler, Handler, Handler, Handler]"
    by (simp add: numeral_eq_Suc)
  moreover define q' where
    "q' = q\<lparr>rq_start := (if maxSize q \<le> rq_start q + 1 then 0 else rq_start q + 1)\<rparr>"
  ultimately show ?thesis
    using poll ne w
    by (intro exI [of _ "items q ! unat (rq_start q)"] exI [of _ q'])
      (auto simp: dequeue_def as_threads_def handler_step_def)
qed

lemma poll_alone:
  assumes "rq_wf q" and "rq_contents q = []"
  shows "run_schedule [Handler] (as_threads q snt gt) = as_threads q snt gt"
proof -
  have "rq_len q = 0" using assms(2) rq_contents_length [of q] by simp
  then show ?thesis
    by (simp add: as_threads_def handler_step_def rq_len_def ring_len_def)
qed

text \<open>A schedule in which the threads keep apart, checked step by step.\<close>

fun apart_schedule :: "'a turn list \<Rightarrow> 'a threads \<Rightarrow> bool" where
  "apart_schedule [] s = True"
| "apart_schedule (t # ts) s \<longleftrightarrow>
     (case t of Server x \<Rightarrow> \<not> test_in_reset_window s | Handler \<Rightarrow> True) \<and>
     apart_schedule ts (turn_step t s)"

lemma reachable_apart_schedule:
  "apart_schedule ts s \<Longrightarrow> reachable_apart d n s \<Longrightarrow> reachable_apart d n (run_schedule ts s)"
proof (induction ts arbitrary: s)
  case (Cons t ts)
  then have "reachable_apart d n (turn_step t s)"
    by (cases t) (auto intro: reachable_apart.intros)
  from Cons.IH [OF _ this] Cons.prems show ?case by (simp add: run_schedule_def)
qed (simp add: run_schedule_def)

section \<open>Progress\<close>

text \<open>
  How many turns the handler thread needs at most until it has taken the item that was published
  as number \<open>k\<close>: five for each item before it (reset, poll, test, copy, increment), fewer for one
  it has begun with.
\<close>

definition turns_left :: "'a deq_pc \<Rightarrow> nat" where
  "turns_left pc = (case pc of
       DeqReset _ \<Rightarrow> 5 | DeqPoll \<Rightarrow> 4 | DeqTest \<Rightarrow> 3 | DeqCopy \<Rightarrow> 2 | DeqIncr _ \<Rightarrow> 1 | DeqThrown \<Rightarrow> 5)"

definition turns_needed :: "nat \<Rightarrow> 'a threads \<Rightarrow> nat" where
  "turns_needed k s =
     (if k < length (got s) then 0 else 5 * (k - length (got s)) + turns_left (deq_at s))"

lemma turns_needed_bound: "turns_needed k s \<le> 5 * (Suc k - length (got s))"
  by (auto simp: turns_needed_def turns_left_def Suc_diff_le not_less split: deq_pc.split)

lemma turns_needed_enqueue: "turns_needed k (enqueue_step x s) = turns_needed k s"
  by (simp add: turns_needed_def enqueue_step_def split: enq_pc.split)

lemma turns_needed_handler:
  assumes "0 < n" and inv: "threads_inv n s" and k: "k < length (sent s)"
  shows "turns_needed k (handler_step s) \<le> turns_needed k s - 1"
proof (cases "k < length (got s)")
  case True
  then have "k < length (got (handler_step s))"
    by (simp add: handler_step_def split: deq_pc.split)
  then show ?thesis by (simp add: turns_needed_def)
next
  case False
  have b: "threads_bounds n s" using inv by (simp add: threads_inv_def)
  have "pending s \<noteq> []" using inv k False by (auto simp: threads_inv_def)
  then have "pending_len s \<noteq> 0" by (metis pending_def ring_list_0)
  moreover have "(end_pos s + n - start_pos s) mod n = pending_len s" if "deq_at s = DeqPoll"
    using that ring_len_mod_end [of "start_pos s" n "end_pos s"] threads_positions(4) [OF assms(1) b] b
    by (auto simp: pending_len_def threads_bounds_def)
  moreover have "deq_at s \<noteq> DeqThrown" using inv by (auto simp: threads_inv_def deq_knows_def)
  moreover have "start_pos s \<noteq> end_pos s" if "deq_at s = DeqTest"
    using that inv threads_positions(3) [OF assms(1) b] by (auto simp: threads_inv_def deq_knows_def)
  moreover have "ring_size s = n" using b by (simp add: threads_bounds_def)
  ultimately show ?thesis
    using False by (auto simp: turns_needed_def turns_left_def handler_step_def split: deq_pc.splits)
qed

text \<open>Published and taken items stay so.\<close>

lemma sent_extends: "\<exists>ys. sent (turn_step t s) = sent s @ ys"
  by (cases t) (simp_all add: enqueue_step_def handler_step_def split: enq_pc.split deq_pc.split)

lemma sent_extends_run: "\<exists>ys. sent (run_schedule ts s) = sent s @ ys"
proof (induction ts arbitrary: s)
  case (Cons t ts)
  then show ?case using sent_extends [of t s] by (metis append_assoc run_schedule_Cons)
qed simp

fun handler_turns :: "'a turn list \<Rightarrow> nat" where
  "handler_turns [] = 0"
| "handler_turns (Handler # ts) = Suc (handler_turns ts)"
| "handler_turns (Server x # ts) = handler_turns ts"

lemma threads_inv_turn:
  assumes "0 < n" and "threads_inv n s" and "apart_schedule (t # ts) s"
  shows "threads_inv n (turn_step t s)"
  using assms by (cases t) (auto intro: threads_inv_enqueue threads_inv_handler)

lemma turns_needed_run:
  "0 < n \<Longrightarrow> threads_inv n s \<Longrightarrow> apart_schedule ts s \<Longrightarrow> k < length (sent s) \<Longrightarrow>
   turns_needed k (run_schedule ts s) \<le> turns_needed k s - handler_turns ts"
proof (induction ts arbitrary: s)
  case (Cons t ts)
  have inv: "threads_inv n (turn_step t s)" using Cons.prems by (intro threads_inv_turn)
  have k: "k < length (sent (turn_step t s))"
    using sent_extends [of t s] Cons.prems(4) by auto
  have ap: "apart_schedule ts (turn_step t s)" using Cons.prems(3) by simp
  note IH = Cons.IH [OF Cons.prems(1) inv ap k]
  show ?case
  proof (cases t)
    case (Server x)
    then show ?thesis using IH by (simp add: turns_needed_enqueue)
  next
    case Handler
    then show ?thesis
      using IH turns_needed_handler [OF Cons.prems(1,2,4)] by simp
  qed
qed simp

section \<open>Properties\<close>

text \<open>C3: as long as the fullness test never falls between the increment of \<open>start\<close> to \<open>maxSize\<close> and
  its reset, the queue works between its two threads without a lock: the handler gets exactly the
  published items in their order, \<open>dequeue\<close> never throws, and no slot is written while it is read.\<close>

theorem threads_fifo:
  assumes "reachable_apart d n s" and "0 < n"
  shows "sent s = got s @ pending s \<and> length (pending s) < n \<and> deq_at s \<noteq> DeqThrown \<and>
    \<not> (end_pos s = start_pos s \<and> deq_at s = DeqCopy)"
proof -
  have inv: "threads_inv n s" using assms by (rule reachable_apart_inv)
  then have b: "threads_bounds n s" by (simp add: threads_inv_def)
  note pos = threads_positions [OF assms(2) b]
  show ?thesis
    using inv pos(2,3) by (auto simp: threads_inv_def deq_knows_def pending_def)
qed

theorem threads_fifo_witness:
  "let s = run_schedule (enqueue_turns (7 :: nat) @ replicate 2 Handler @ enqueue_turns 8 @
       replicate 2 Handler) (threads_init (0 :: nat) 3)
   in sent s = got s @ pending s \<and> length (pending s) < 3 \<and> deq_at s \<noteq> DeqThrown \<and>
      \<not> (end_pos s = start_pos s \<and> deq_at s = DeqCopy) \<and> sent s = [7, 8] \<and> got s = [7]"
proof -
  let ?ts = "enqueue_turns (7 :: nat) @ replicate 2 Handler @ enqueue_turns 8 @ replicate 2 Handler"
  have "apart_schedule ?ts (threads_init (0 :: nat) 3)" by code_simp
  then have "reachable_apart 0 3 (run_schedule ?ts (threads_init 0 3))"
    by (rule reachable_apart_schedule [OF _ reachable_apart.start])
  moreover have "sent (run_schedule ?ts (threads_init (0 :: nat) 3)) = [7, 8]" by code_simp
  moreover have "got (run_schedule ?ts (threads_init (0 :: nat) 3)) = [7]" by code_simp
  ultimately show ?thesis using threads_fifo [of 0 3 "run_schedule ?ts (threads_init 0 3)"]
    by (simp add: Let_def)
qed

text \<open>C11: every accepted request is taken: whatever the server thread does in between (as long as the
  threads keep apart), once an item is published the handler thread has taken it, unchanged and in its
  place in the order, after at most five of its turns for each item up to this one, and so after at
  most \<open>5 * n\<close> turns.\<close>

theorem published_item_taken:
  assumes "reachable_apart d n s" and "0 < n" and "k < length (sent s)" and "apart_schedule ts s"
    and "5 * min (Suc k - length (got s)) n \<le> handler_turns ts"
  shows "k < length (got (run_schedule ts s)) \<and> got (run_schedule ts s) ! k = sent s ! k"
proof -
  let ?s' = "run_schedule ts s"
  have inv: "threads_inv n s" by (rule reachable_apart_inv [OF assms(1,2)])
  then have b: "threads_bounds n s" and q: "sent s = got s @ pending s"
    by (simp_all add: threads_inv_def)
  have "length (pending s) < n" using threads_positions(2) [OF assms(2) b] by (simp add: pending_def)
  then have "Suc k - length (got s) \<le> n" using assms(3) q by simp
  then have "turns_needed k s \<le> handler_turns ts"
    using turns_needed_bound [of k s] assms(5) by (simp add: min_absorb1)
  then have "turns_needed k ?s' = 0" using turns_needed_run [OF assms(2) inv assms(4,3)] by simp
  then have k: "k < length (got ?s')"
    by (auto simp: turns_needed_def turns_left_def split: if_splits deq_pc.splits)
  have "reachable_apart d n ?s'" by (rule reachable_apart_schedule [OF assms(4,1)])
  from reachable_apart_inv [OF this assms(2)] have "sent ?s' = got ?s' @ pending ?s'"
    by (simp add: threads_inv_def)
  moreover obtain ys where "sent ?s' = sent s @ ys" using sent_extends_run by blast
  ultimately have "got ?s' ! k = sent s ! k" using k assms(3) by (metis nth_append)
  with k show ?thesis by simp
qed

theorem published_item_taken_witness:
  "let s = run_schedule (enqueue_turns (7 :: nat) @ enqueue_turns 8) (threads_init 0 3)
   in 1 < length (got (run_schedule (concat (replicate 10 [Handler, Server 9])) s)) \<and>
      got (run_schedule (concat (replicate 10 [Handler, Server 9])) s) ! 1 = 8"
proof -
  let ?s0 = "threads_init (0 :: nat) 3" and ?ts = "enqueue_turns (7 :: nat) @ enqueue_turns 8"
  let ?us = "concat (replicate 10 [Handler, Server (9 :: nat)])"
  have "apart_schedule ?ts ?s0" by code_simp
  then have r: "reachable_apart 0 3 (run_schedule ?ts ?s0)"
    by (rule reachable_apart_schedule [OF _ reachable_apart.start])
  have st: "sent (run_schedule ?ts ?s0) = [7, 8]" "got (run_schedule ?ts ?s0) = []" by code_simp+
  have u: "apart_schedule ?us (run_schedule ?ts ?s0)" by code_simp
  have h: "handler_turns ?us = 10" by code_simp
  show ?thesis
    using published_item_taken [OF r _ _ u, of 1] by (simp only: st h Let_def) simp
qed

text \<open>C31: in every interleaving, the overlapping ones included, the queue accesses its array in
  bounds: the positions are below \<open>maxSize\<close> wherever a slot is read or written.\<close>

theorem slot_accesses_in_bounds:
  assumes "reachable d n s" and "0 < n"
  shows "length (slots s) = n \<and> (enq_at s = EnqStore x \<longrightarrow> end_pos s < n) \<and>
    (deq_at s = DeqCopy \<longrightarrow> start_pos s < n)"
  using reachable_bounds [OF assms] by (auto simp: threads_bounds_def le_less)

theorem slot_accesses_in_bounds_witness:
  "let s = run_schedule overlap_schedule (threads_init 0 2)
   in length (slots s) = 2 \<and> (enq_at s = EnqStore 4 \<longrightarrow> end_pos s < 2) \<and>
      (deq_at s = DeqCopy \<longrightarrow> start_pos s < 2) \<and> enq_at s = EnqStore 4 \<and> start_pos s = 2"
proof -
  have "reachable 0 2 (run_schedule overlap_schedule (threads_init 0 2))"
    by (rule reachable_schedule) (rule reachable.start)
  moreover have "enq_at (run_schedule overlap_schedule (threads_init 0 2)) = EnqStore 4"
    by code_simp
  moreover have "start_pos (run_schedule overlap_schedule (threads_init 0 2)) = 2" by code_simp
  ultimately show ?thesis
    using slot_accesses_in_bounds [of 0 2 "run_schedule overlap_schedule (threads_init 0 2)" 4]
    by (simp add: Let_def)
qed

text \<open>C22: when the fullness test does fall into that window the queue fails, already with two slots: there
  is an execution in which four items are accepted, two are handed over, and the queue is empty with
  both threads outside their operations; and one in which \<open>dequeue\<close> throws on the handler thread
  right after a \<open>count\<close> that was not zero. Nothing catches that exception.\<close>

theorem overlap_breaks_queue:
  "(\<exists>s. reachable (0 :: nat) 2 s \<and> enq_at s = EnqIdle \<and> deq_at s = DeqPoll \<and>
      sent s = [1, 2, 3, 4] \<and> got s = [1, 2] \<and> start_pos s = end_pos s) \<and>
   (\<exists>s. reachable (0 :: nat) 2 s \<and> deq_at s = DeqThrown)"
proof
  show "\<exists>s. reachable (0 :: nat) 2 s \<and> enq_at s = EnqIdle \<and> deq_at s = DeqPoll \<and>
      sent s = [1, 2, 3, 4] \<and> got s = [1, 2] \<and> start_pos s = end_pos s"
    using reachable_schedule [OF reachable.start, of 0 2 lossy_schedule]
    by (intro exI [of _ "run_schedule lossy_schedule (threads_init 0 2)"])
      (simp add: lossy_schedule_result)
  show "\<exists>s. reachable (0 :: nat) 2 s \<and> deq_at s = DeqThrown"
    using reachable_schedule [OF reachable.start, of 0 2 throwing_schedule]
      throwing_schedule_result by blast
qed

text \<open>C39: the interleaving model is the sequential one wherever a thread is not interrupted: from a state
  outside the operations, five steps of the server thread do what a successful \<open>enqueue\<close> does (two
  steps for a rejected one), and five steps of the handler thread what \<open>count\<close> and \<open>dequeue\<close> do (one
  step on an empty queue).\<close>

theorem threads_agree_with_queue:
  assumes "rq_wf q"
  shows "(\<exists>r q'. enqueue q x = Inr (r, q') \<and>
      run_schedule (replicate (if r = 0 then 5 else 2) (Server x)) (as_threads q snt gt) =
        as_threads q' (if r = 0 then snt @ [x] else snt) gt) \<and>
    run_schedule (replicate (if rq_contents q = [] then 1 else 5) Handler) (as_threads q snt gt) =
      (case dequeue q of Inr (y, q') \<Rightarrow> as_threads q' snt (gt @ [y]) | Inl e \<Rightarrow> as_threads q snt gt)"
proof (cases "rq_contents q = []")
  case True
  then show ?thesis
    using enqueue_alone [OF assms] poll_alone [OF assms True, of snt gt] dequeue_empty [OF assms True]
    by simp
next
  case False
  then show ?thesis
    using enqueue_alone [OF assms] dequeue_alone [OF assms False, of snt gt] by fastforce
qed

theorem threads_agree_with_queue_witness:
  "\<exists>r q'. enqueue (new_RequestQueue (0 :: nat) 4) 7 = Inr (r, q') \<and>
     run_schedule (replicate (if r = 0 then 5 else 2) (Server 7)) (threads_init 0 4) =
       as_threads q' (if r = 0 then [] @ [7] else []) []"
proof -
  have "rq_wf (new_RequestQueue (0 :: nat) 4)" by (simp add: rq_wf_new)
  moreover have "as_threads (new_RequestQueue (0 :: nat) 4) [] [] = threads_init 0 4"
    by (simp add: as_threads_def new_RequestQueue_def threads_init_def)
  ultimately show ?thesis
    using threads_agree_with_queue [of "new_RequestQueue (0 :: nat) 4" 7 "[]" "[]"] by metis
qed

end
