(* ===== verification/CxxStd.thy ===== *)
theory CxxStd
  imports Prelude
begin

text \<open>
  The part of the C and C++ standard library the sources use on strings and streams: character
  classification in the C locale, \<open>operator[]\<close> and \<open>c_str\<close> of \<open>std::string\<close>, formatted output to
  a \<open>std::ostream\<close>, \<open>std::getline\<close>, \<open>std::stoi\<close>, \<open>strncpy\<close>, \<open>strlen\<close>, and the time formatting
  by \<open>strftime\<close> and \<open>snprintf\<close>.
\<close>

section \<open>Characters and strings\<close>

definition code :: "char \<Rightarrow> nat" where
  "code c = of_char c"

definition chr :: "nat \<Rightarrow> char" where
  "chr n = char_of n"

definition NUL :: char where
  "NUL = CHR 0x00"

definition isdigit :: "char \<Rightarrow> bool" where
  "isdigit c \<longleftrightarrow> 48 \<le> code c \<and> code c \<le> 57"

definition digit_value :: "char \<Rightarrow> nat" where
  "digit_value c = code c - 48"

definition isprint :: "char \<Rightarrow> bool" where
  "isprint c \<longleftrightarrow> 32 \<le> code c \<and> code c \<le> 126"

text \<open>
  \<open>s[i]\<close> of a \<open>std::string\<close>: position \<open>size()\<close> reads the terminating null character. The callers
  never read past it.
\<close>

definition char_at :: "string \<Rightarrow> nat \<Rightarrow> char" where
  "char_at s i = (if i < length s then s ! i else NUL)"

text \<open>A string read through \<open>c_str()\<close> by a C function ends at its first null character.\<close>

definition c_string :: "string \<Rightarrow> string" where
  "c_string s = takeWhile (\<lambda>c. c \<noteq> NUL) s"

lemma code_chr [simp]: "n < 256 \<Longrightarrow> code (chr n) = n"
  by (simp add: code_def chr_def)

lemma chr_code [simp]: "chr (code c) = c"
  by (simp add: code_def chr_def)

lemma code_less [simp]: "code c < 256"
  by (simp add: code_def)

lemma code_inject [simp]: "code a = code b \<longleftrightarrow> a = b"
  by (metis chr_code)

lemma char_of_byte_code [simp]: "code (char_of_byte b) = unat b"
proof -
  have "unat b < 256" using unsigned_less [of b, where ?'a = nat] by simp
  then show ?thesis by (simp add: char_of_byte_def code_def)
qed

lemma byte_of_char_code: "unat (byte_of_char c) = code c"
proof -
  have "(of_char c :: nat) < 256" by simp
  then show ?thesis by (simp add: byte_of_char_def code_def unat_of_nat)
qed

lemma byte_of_char_of_byte [simp]: "byte_of_char (char_of_byte b) = b"
  by (simp add: word_unat_eq_iff byte_of_char_code)

lemma char_of_byte_of_char [simp]: "char_of_byte (byte_of_char c) = c"
  by (simp flip: code_inject add: byte_of_char_code)

lemma isdigit_NUL [simp]: "\<not> isdigit NUL"
  by (simp add: isdigit_def NUL_def code_def)

lemma code_NUL [simp]: "code NUL = 0"
  by (simp add: NUL_def code_def)

lemma byte_of_char_0_iff: "byte_of_char c = 0 \<longleftrightarrow> c = NUL"
  by (metis byte_of_char_code code_NUL code_inject unat_0_iff)

lemma char_at_Nil [simp]: "char_at [] i = NUL"
  by (simp add: char_at_def)

lemma char_at_0 [simp]: "char_at (c # s) 0 = c"
  by (simp add: char_at_def)

lemma char_at_Suc [simp]: "char_at (c # s) (Suc i) = char_at s i"
  by (simp add: char_at_def)

lemma c_string_no_NUL: "NUL \<notin> set (c_string s)"
  by (auto simp: c_string_def dest: set_takeWhileD)

lemma c_string_id: "NUL \<notin> set s \<Longrightarrow> c_string s = s"
  by (auto simp: c_string_def takeWhile_eq_all_conv)

section \<open>Output streams\<close>

text \<open>
  A \<open>std::ostringstream\<close> (or \<open>std::stringstream\<close>): what was written so far, and the formatting
  state the sources change: number base, upper case digits, fill character and field width. The
  width goes back to 0 after each formatted output; the other settings stay.
\<close>

record ostream =
  written :: string
  flag_hex :: bool
  flag_upper :: bool
  fill :: char
  width :: nat

definition new_ostream :: ostream where
  "new_ostream = \<lparr>written = [], flag_hex = False, flag_upper = False, fill = CHR '' '', width = 0\<rparr>"

text \<open>Padding to the field width; the default alignment puts the fill on the left.\<close>

definition padded :: "ostream \<Rightarrow> string \<Rightarrow> string" where
  "padded os s = replicate (width os - length s) (fill os) @ s"

definition put_string :: "string \<Rightarrow> ostream \<Rightarrow> ostream" where
  "put_string s os = os\<lparr>written := written os @ padded os s, width := 0\<rparr>"

definition put_char :: "char \<Rightarrow> ostream \<Rightarrow> ostream" where
  "put_char c = put_string [c]"

definition digit_char :: "bool \<Rightarrow> nat \<Rightarrow> char" where
  "digit_char upper d =
     (if d < 10 then chr (48 + d) else if upper then chr (55 + d) else chr (87 + d))"

text \<open>The digits of a number, most significant first, without leading zeros.\<close>

fun digits :: "nat \<Rightarrow> bool \<Rightarrow> nat \<Rightarrow> string" where
  "digits base upper n =
     (if n < base \<or> base < 2 then [digit_char upper n]
      else digits base upper (n div base) @ [digit_char upper (n mod base)])"

declare digits.simps [simp del]

definition put_unsigned :: "nat \<Rightarrow> ostream \<Rightarrow> ostream" where
  "put_unsigned n os = put_string (digits (if flag_hex os then 16 else 10) (flag_upper os) n) os"

definition set_hex :: "ostream \<Rightarrow> ostream" where
  "set_hex os = os\<lparr>flag_hex := True\<rparr>"

definition set_uppercase :: "ostream \<Rightarrow> ostream" where
  "set_uppercase os = os\<lparr>flag_upper := True\<rparr>"

definition setfill :: "char \<Rightarrow> ostream \<Rightarrow> ostream" where
  "setfill c os = os\<lparr>fill := c\<rparr>"

definition setw :: "nat \<Rightarrow> ostream \<Rightarrow> ostream" where
  "setw n os = os\<lparr>width := n\<rparr>"

text \<open>\<open>out.flags()\<close> and \<open>out.flags(f)\<close>: base and case are flags, fill and width are not.\<close>

definition get_flags :: "ostream \<Rightarrow> bool \<times> bool" where
  "get_flags os = (flag_hex os, flag_upper os)"

definition set_flags :: "bool \<times> bool \<Rightarrow> ostream \<Rightarrow> ostream" where
  "set_flags f os = os\<lparr>flag_hex := fst f, flag_upper := snd f\<rparr>"

lemmas stream_defs = put_string_def put_char_def put_unsigned_def set_hex_def set_uppercase_def
  setfill_def setw_def get_flags_def set_flags_def padded_def

section \<open>Lines\<close>

text \<open>
  \<open>std::getline\<close>: the characters up to the next newline, which is consumed, or up to the end of
  the input; it fails when there is nothing left to extract.
\<close>

fun getline :: "string \<Rightarrow> (string \<times> string) option" where
  "getline [] = None"
| "getline (c # s) =
     (if c = CHR 0x0A then Some ([], s)
      else case getline s of None \<Rightarrow> Some ([c], []) | Some (l, r) \<Rightarrow> Some (c # l, r))"

lemma getline_shorter: "getline s = Some (l, r) \<Longrightarrow> length r < length s"
  by (induction s arbitrary: l r) (fastforce split: if_splits option.splits)+

section \<open>Integers in strings\<close>

text \<open>
  \<open>std::stoi\<close> (base 10): skips white space, takes an optional sign and the longest run of digits,
  ignores what follows; throws \<open>std::invalid_argument\<close> without a digit and \<open>std::out_of_range\<close>
  when the value does not fit \<open>int\<close>.
\<close>

definition isspace :: "char \<Rightarrow> bool" where
  "isspace c \<longleftrightarrow> code c = 32 \<or> (9 \<le> code c \<and> code c \<le> 13)"

definition digits_value :: "string \<Rightarrow> nat" where
  "digits_value ds = foldl (\<lambda>n c. n * 10 + digit_value c) 0 ds"

definition stoi :: "string \<Rightarrow> int res" where
  "stoi s =
     (let t = dropWhile isspace s;
          neg = (t \<noteq> [] \<and> hd t = CHR ''-'');
          u = (if t \<noteq> [] \<and> (hd t = CHR ''-'' \<or> hd t = CHR ''+'') then tl t else t);
          ds = takeWhile isdigit u;
          v = (if neg then - int (digits_value ds) else int (digits_value ds))
      in if ds = [] then Inl (LibraryThrow ''std::invalid_argument: stoi'')
         else if v < - (2 ^ 31) \<or> 2 ^ 31 \<le> v then Inl (LibraryThrow ''std::out_of_range: stoi'')
         else Inr v)"

section \<open>Time stamps\<close>

text \<open>A broken-down time as \<open>localtime\<close> returns it (years count from 1900, months from 0).\<close>

record tm =
  tm_year :: int
  tm_mon :: nat
  tm_mday :: nat
  tm_hour :: nat
  tm_min :: nat
  tm_sec :: nat

record timeval =
  tv_sec :: int
  tv_usec :: nat

definition zero_padded :: "nat \<Rightarrow> nat \<Rightarrow> string" where
  "zero_padded w n =
     (let ds = digits 10 False n in replicate (w - length ds) (CHR ''0'') @ ds)"

definition year_string :: "int \<Rightarrow> string" where
  "year_string y = (if y < 0 then CHR ''-'' # digits 10 False (nat (- y)) else digits 10 False (nat y))"

text \<open>\<open>strftime\<close> with the format \<open>%Y-%m-%dT%H:%M:%S\<close>.\<close>

definition iso_time :: "tm \<Rightarrow> string" where
  "iso_time t = year_string (tm_year t + 1900) @ ''-'' @ zero_padded 2 (tm_mon t + 1) @ ''-'' @
     zero_padded 2 (tm_mday t) @ ''T'' @ zero_padded 2 (tm_hour t) @ '':'' @
     zero_padded 2 (tm_min t) @ '':'' @ zero_padded 2 (tm_sec t)"

text \<open>
  \<open>strftime(buf, max, ...)\<close> returns the length, or 0 when the text and its terminator do not fit;
  \<open>snprintf(buf, size, ...)\<close> writes at most \<open>size - 1\<close> characters and a terminator.
\<close>

definition strftime_fit :: "nat \<Rightarrow> string \<Rightarrow> string" where
  "strftime_fit lim s = (if length s < lim then s else [])"

definition snprintf_fit :: "nat \<Rightarrow> string \<Rightarrow> string" where
  "snprintf_fit sz s = take (sz - 1) s"

lemma digits_less: "n < base \<Longrightarrow> digits base u n = [digit_char u n]"
  by (simp add: digits.simps)

lemma digits_two:
  "base \<le> n \<Longrightarrow> n < base * base \<Longrightarrow> 2 \<le> base \<Longrightarrow>
   digits base u n = [digit_char u (n div base), digit_char u (n mod base)]"
  using less_mult_imp_div_less [of n base base]
  by (subst digits.simps) (simp add: digits_less)

lemma digit_char_0 [simp]: "digit_char u 0 = CHR ''0''"
  by (simp add: digit_char_def chr_def flip: code_inject) (simp add: code_def)

lemma zero_padded_2: "n < 100 \<Longrightarrow>
    zero_padded 2 n = [digit_char False (n div 10), digit_char False (n mod 10)]"
  by (cases "n < 10") (simp_all add: zero_padded_def digits_less digits_two)

lemma digit_chars:
  "digit_char False 1 = CHR ''1''" "digit_char False 2 = CHR ''2''" "digit_char False 3 = CHR ''3''"
  "digit_char False 4 = CHR ''4''" "digit_char False 5 = CHR ''5''" "digit_char False 6 = CHR ''6''"
  "digit_char False 7 = CHR ''7''" "digit_char False 8 = CHR ''8''" "digit_char False 9 = CHR ''9''"
  by code_simp+

lemma digits_length: "2 \<le> base \<Longrightarrow> base ^ k \<le> n \<Longrightarrow> n < base ^ Suc k \<Longrightarrow>
    length (digits base u n) = Suc k"
proof (induction k arbitrary: n)
  case (Suc k)
  have "base ^ k \<le> n div base"
    using Suc.prems by (metis div_le_mono nonzero_mult_div_cancel_left not_numeral_le_zero power_Suc)
  moreover have "n div base < base ^ Suc k"
    using Suc.prems by (metis less_mult_imp_div_less mult.commute power_Suc)
  moreover have "\<not> n < base" using Suc.prems(1,2)
    by (metis calculation(1) div_less not_less_zero power_not_zero not_numeral_le_zero le_zero_eq)
  ultimately show ?case using Suc by (simp add: digits.simps [of base u n])
qed (simp add: digits_less)

lemma zero_padded_length_2: "n < 100 \<Longrightarrow> length (zero_padded 2 n) = 2"
  by (simp add: zero_padded_2)

lemma zero_padded_length_3: "n < 1000 \<Longrightarrow> length (zero_padded 3 n) = 3"
  using digits_length [of 10 2 n False]
  by (cases "n < 100"; cases "n < 10") (simp_all add: zero_padded_def digits_less digits_two)

text \<open>The ranges of \<open>localtime\<close> and \<open>gettimeofday\<close>, for years with four digits.\<close>

definition tm_ok :: "tm \<Rightarrow> bool" where
  "tm_ok t \<longleftrightarrow> 1000 \<le> tm_year t + 1900 \<and> tm_year t + 1900 < 10000 \<and> tm_mon t < 12 \<and>
     tm_mday t < 32 \<and> tm_hour t < 24 \<and> tm_min t < 60 \<and> tm_sec t < 61"

lemma iso_time_length:
  assumes "tm_ok t"
  shows "length (iso_time t) = 19"
proof -
  have "length (year_string (tm_year t + 1900)) = 4"
    using assms digits_length [of 10 3 "nat (tm_year t + 1900)" False]
    by (auto simp: year_string_def tm_ok_def nat_less_iff le_nat_iff)
  then show ?thesis
    using assms by (simp add: iso_time_def tm_ok_def zero_padded_length_2)
qed

text \<open>\<open>stoi\<close> on the decimal digits of a number, followed by something that is not a digit.\<close>

lemma isdigit_digit_char: "d < 10 \<Longrightarrow> isdigit (digit_char u d) \<and> digit_value (digit_char u d) = d"
  by (simp add: digit_char_def isdigit_def digit_value_def)

lemma digits_isdigit: "c \<in> set (digits 10 u n) \<Longrightarrow> isdigit c"
proof (induction n rule: less_induct)
  case (less n)
  then show ?case
    using less.IH [of "n div 10"] isdigit_digit_char [of "n mod 10" u] isdigit_digit_char [of n u]
    by (cases "n < 10") (auto simp: digits.simps [of 10 u n])
qed

lemma digits_not_Nil: "digits b u n \<noteq> []"
  by (simp add: digits.simps [of b u n])

lemma digits_value_snoc: "digits_value (ds @ [c]) = digits_value ds * 10 + digit_value c"
  by (simp add: digits_value_def)

lemma digits_value_digits: "digits_value (digits 10 u n) = n"
proof (induction n rule: less_induct)
  case (less n)
  show ?case
  proof (cases "n < 10")
    case True
    then show ?thesis
      using isdigit_digit_char [of n u] by (simp add: digits_less) (simp add: digits_value_def)
  next
    case False
    then have "digits 10 u n = digits 10 u (n div 10) @ [digit_char u (n mod 10)]"
      by (simp add: digits.simps [of 10 u n])
    then show ?thesis
      using less [of "n div 10"] False isdigit_digit_char [of "n mod 10" u]
      by (simp add: digits_value_snoc)
  qed
qed

lemma stoi_digits:
  assumes "n < 2 ^ 31" and "rest = [] \<or> \<not> isdigit (hd rest)"
  shows "stoi (digits 10 u n @ rest) = Inr (int n)"
proof -
  let ?ds = "digits 10 u n"
  obtain c ds where ds: "?ds = c # ds" using digits_not_Nil [of 10 u n] by (cases ?ds) auto
  then have "isdigit c" using digits_isdigit [of c u n] by simp
  then have c: "\<not> isspace c" "c \<noteq> CHR ''-''" "c \<noteq> CHR ''+''"
    by (auto simp: isdigit_def isspace_def code_def)
  have "takeWhile isdigit (?ds @ rest) = ?ds"
    using digits_isdigit [of _ u n] assms(2) by (cases rest) (auto simp: takeWhile_append)
  then have "takeWhile isdigit (c # ds @ rest) = ?ds" by (simp add: ds)
  then show ?thesis
    using assms(1) c digits_value_digits [of u n] by (simp add: stoi_def ds Let_def)
qed

end
