(* ===== verification/Formatters.thy ===== *)
theory Formatters
  imports CxxStd
begin

text \<open>
  The resource formatters (\<open>src/ResourceFormatter.cpp\<close> and \<open>src/ResourceFormatter/\<close>): each turns
  the bytes of a request into text on an output stream.
\<close>

section \<open>The three decoders\<close>

text \<open>\<open>ResourceFormatterText::decode\<close>.\<close>

definition text_decode_byte :: "byte \<Rightarrow> ostream \<Rightarrow> ostream" where
  "text_decode_byte b out =
     (let ch = char_of_byte b
      in if isprint ch then put_char ch out
         else let flags = get_flags out;
                  out1 = put_string (CHR 0x5C # ''x'') out;
                  out2 = put_unsigned (unat b) (setw 2 (setfill (CHR ''0'') (set_hex out1)))
              in set_flags flags out2)"

definition text_decode :: "bytes \<Rightarrow> ostream \<Rightarrow> int \<times> ostream" where
  "text_decode data out = (0, fold text_decode_byte data out)"

text \<open>\<open>ResourceFormatterHex::decode\<close>.\<close>

definition hex_decode_byte :: "byte \<Rightarrow> ostream \<Rightarrow> ostream" where
  "hex_decode_byte b out = put_unsigned (unat b) (setw 2 out)"

definition hex_decode :: "bytes \<Rightarrow> ostream \<Rightarrow> int \<times> ostream" where
  "hex_decode data out =
     (0, fold hex_decode_byte data (setfill (CHR ''0'') (set_hex (set_uppercase out))))"

text \<open>
  \<open>ResourceFormatterBase64::decode\<close>. The byte operands are promoted to \<open>int\<close> before the shifts and
  masks, so the indices are computed on integers.
\<close>

definition base64_chars :: string where
  "base64_chars =
     ''ABCDEFGHIJKLMNOPQRSTUVWXYZ'' @ ''abcdefghijklmnopqrstuvwxyz'' @ ''0123456789+/''"

definition base64_index0 :: "int \<Rightarrow> int" where
  "base64_index0 b0 = drop_bit 2 b0"

definition base64_index1 :: "int \<Rightarrow> int \<Rightarrow> int" where
  "base64_index1 b0 b1 = (push_bit 4 b0 AND 0x30) OR drop_bit 4 b1"

definition base64_index2 :: "int \<Rightarrow> int \<Rightarrow> int" where
  "base64_index2 b1 b2 = (push_bit 2 b1 AND 0x3C) OR drop_bit 6 b2"

definition base64_index3 :: "int \<Rightarrow> int" where
  "base64_index3 b2 = b2 AND 0x3F"

definition base64_char :: "int \<Rightarrow> char" where
  "base64_char k = char_at base64_chars (nat k)"

function base64_loop :: "bytes \<Rightarrow> nat \<Rightarrow> ostream \<Rightarrow> ostream" where
  "base64_loop data i out =
     (if i < length data then
        let left = length data - i;
            b0 = data ! i;
            b1 = (if 2 \<le> left then data ! (i + 1) else 0);
            b2 = (if 3 \<le> left then data ! (i + 2) else 0);
            out1 = put_char (base64_char (base64_index0 (uint b0))) out;
            out2 = put_char (base64_char (base64_index1 (uint b0) (uint b1))) out1;
            out3 = (if 2 \<le> left then put_char (base64_char (base64_index2 (uint b1) (uint b2))) out2
                    else put_char (CHR ''='') out2);
            out4 = (if 3 \<le> left then put_char (base64_char (base64_index3 (uint b2))) out3
                    else put_char (CHR ''='') out3)
        in base64_loop data (i + 3) out4
      else out)"
  by pat_completeness auto
termination
  by (relation "measure (\<lambda>(data, i, out). length data - i)") auto

declare base64_loop.simps [simp del]

definition base64_decode :: "bytes \<Rightarrow> ostream \<Rightarrow> int \<times> ostream" where
  "base64_decode data out = (0, base64_loop data 0 out)"

section \<open>Choosing a formatter\<close>

text \<open>The classes derived from \<open>ResourceFormatter\<close>, their virtual method and the factory.\<close>

datatype formatter = FormatterText | FormatterHex | FormatterBase64

fun decode :: "formatter \<Rightarrow> bytes \<Rightarrow> ostream \<Rightarrow> int \<times> ostream" where
  "decode FormatterText = text_decode"
| "decode FormatterHex = hex_decode"
| "decode FormatterBase64 = base64_decode"

definition createResourceFormatter :: "string \<Rightarrow> formatter res" where
  "createResourceFormatter fmt =
     (if fmt = ''STRING'' then Inr FormatterText
      else if fmt = ''HEX'' then Inr FormatterHex
      else if fmt = ''BASE64'' then Inr FormatterBase64
      else Inl (RuntimeError (''Invalid resource format type: '' @ fmt)))"

text \<open>The text a formatter makes of some data on a fresh stream.\<close>

definition formatted :: "formatter \<Rightarrow> bytes \<Rightarrow> string" where
  "formatted f data = written (snd (decode f data new_ostream))"


section \<open>What the formatters promise\<close>

text \<open>
  The texts without streams and loops: two hexadecimal digits for each byte; printable characters
  as they are and the others as \<open>\x\<close> with two digits; and RFC 4648 base 64, where three bytes are
  a 24-bit number written as four base-64 digits, padded at the end.
\<close>

definition hex_pair :: "bool \<Rightarrow> byte \<Rightarrow> string" where
  "hex_pair upper b = [digit_char upper (unat b div 16), digit_char upper (unat b mod 16)]"

definition hex_text :: "bytes \<Rightarrow> string" where
  "hex_text data = concat (map (hex_pair True) data)"

definition text_text_byte :: "byte \<Rightarrow> string" where
  "text_text_byte b =
     (if isprint (char_of_byte b) then [char_of_byte b] else CHR 0x5C # CHR ''x'' # hex_pair False b)"

definition text_text :: "bytes \<Rightarrow> string" where
  "text_text data = concat (map text_text_byte data)"

definition base64_digit :: "int \<Rightarrow> nat \<Rightarrow> char" where
  "base64_digit n k = base64_char (n div 64 ^ k mod 64)"

definition group24 :: "byte \<Rightarrow> byte \<Rightarrow> byte \<Rightarrow> int" where
  "group24 a b c = uint a * 65536 + uint b * 256 + uint c"

fun base64_text :: "bytes \<Rightarrow> string" where
  "base64_text [] = []"
| "base64_text [a] = map (base64_digit (group24 a 0 0)) [3, 2] @ ''==''"
| "base64_text [a, b] = map (base64_digit (group24 a b 0)) [3, 2, 1] @ ''=''"
| "base64_text (a # b # c # data) =
     map (base64_digit (group24 a b c)) [3, 2, 1, 0] @ base64_text data"

fun text_of :: "formatter \<Rightarrow> bytes \<Rightarrow> string" where
  "text_of FormatterText = text_text"
| "text_of FormatterHex = hex_text"
| "text_of FormatterBase64 = base64_text"

section \<open>Digits\<close>

lemma code_digit_char:
  "d < 16 \<Longrightarrow> code (digit_char u d) = (if d < 10 then 48 + d else if u then 55 + d else 87 + d)"
  by (simp add: digit_char_def)

lemma isprint_digit_char: "d < 16 \<Longrightarrow> isprint (digit_char u d)"
  by (simp add: isprint_def code_digit_char)

lemma unat_byte_less [simp]: "unat (b :: byte) < 256"
  using unsigned_less [of b, where ?'a = nat] by simp

lemma unat_byte_nibbles [simp]: "unat (b :: byte) div 16 < 16"
  using unat_byte_less [of b] by linarith

lemma padded_byte:
  assumes "flag_hex out" and "fill out = CHR ''0''" and "width out = 2"
  shows "padded out (digits 16 (flag_upper out) (unat b)) = hex_pair (flag_upper out) (b :: byte)"
  using unat_byte_less [of b] assms
  by (cases "unat b < 16") (simp_all add: padded_def hex_pair_def digits_less digits_two)

section \<open>The hexadecimal and the text formatter write these texts\<close>

lemma hex_fold:
  assumes "flag_hex out" "flag_upper out" "fill out = CHR ''0''" "width out = 0"
  shows "written (fold hex_decode_byte data out) = written out @ hex_text data"
  using assms
proof (induction data arbitrary: out)
  case Nil
  then show ?case by (simp add: hex_text_def)
next
  case (Cons b data)
  have "padded (out\<lparr>width := 2\<rparr>) (digits 16 True (unat b)) = hex_pair True b"
    using padded_byte [of "out\<lparr>width := 2\<rparr>" b] Cons.prems by simp
  then have "hex_decode_byte b out = out\<lparr>written := written out @ hex_pair True b, width := 0\<rparr>"
    using Cons.prems by (simp add: hex_decode_byte_def put_unsigned_def put_string_def setw_def)
  then show ?case
    using Cons.IH [of "hex_decode_byte b out"] Cons.prems by (simp add: hex_text_def)
qed

lemma hex_decode_written:
  assumes "width out = 0"
  shows "written (snd (hex_decode data out)) = written out @ hex_text data"
  using hex_fold [of "setfill (CHR ''0'') (set_hex (set_uppercase out))" data] assms
  by (simp add: hex_decode_def setfill_def set_hex_def set_uppercase_def)

lemma text_decode_byte_eq:
  assumes "width out = 0" "\<not> flag_upper out"
  shows "\<exists>f. text_decode_byte b out =
     out\<lparr>written := written out @ text_text_byte b, fill := f, width := 0\<rparr>"
proof (cases "isprint (char_of_byte b)")
  case True
  then show ?thesis
    using assms
    by (intro exI [of _ "fill out"])
      (cases out, simp add: text_decode_byte_def text_text_byte_def stream_defs)
next
  case False
  have "padded (out\<lparr>written := w, flag_hex := True, fill := CHR ''0'', width := 2\<rparr>)
          (digits 16 False (unat b)) = hex_pair False b" for w
    using padded_byte [of "out\<lparr>written := w, flag_hex := True, fill := CHR ''0'', width := 2\<rparr>" b]
      assms by simp
  then show ?thesis
    using False assms
    by (intro exI [of _ "CHR ''0''"])
      (cases out, simp add: text_decode_byte_def text_text_byte_def stream_defs)
qed

lemma text_decode_written:
  assumes "width out = 0" "\<not> flag_upper out"
  shows "written (snd (text_decode data out)) = written out @ text_text data"
proof -
  have "written (fold text_decode_byte data out) = written out @ text_text data"
    using assms
  proof (induction data arbitrary: out)
    case Nil
    then show ?case by (simp add: text_text_def)
  next
    case (Cons b data)
    obtain f where f: "text_decode_byte b out =
        out\<lparr>written := written out @ text_text_byte b, fill := f, width := 0\<rparr>"
      using text_decode_byte_eq [OF Cons.prems] by blast
    then show ?case
      using Cons.IH [of "text_decode_byte b out"] Cons.prems by (simp add: text_text_def)
  qed
  then show ?thesis by (simp add: text_decode_def)
qed

section \<open>The base 64 formatter: shifts and masks against base-64 digits\<close>

lemma and_low_bits:
  fixes a :: int
  shows "a AND 3 = a mod 4" "a AND 63 = a mod 64" "a AND 15 = a mod 16"
  using take_bit_eq_mask [of 2 a] take_bit_eq_mask [of 6 a] take_bit_eq_mask [of 4 a]
  by (simp_all add: take_bit_eq_mod mask_eq_exp_minus_1)

lemma shifted_masks:
  fixes a :: int
  shows "push_bit 4 a AND 0x30 = (a mod 4) * 2 ^ 4" and "push_bit 2 a AND 0x3C = (a mod 16) * 2 ^ 2"
proof -
  have "push_bit 4 a AND 0x30 = push_bit 4 (a AND 3)" by (simp add: push_bit_and)
  then show "push_bit 4 a AND 0x30 = (a mod 4) * 2 ^ 4"
    by (simp add: and_low_bits push_bit_eq_mult)
  have "push_bit 2 a AND 0x3C = push_bit 2 (a AND 15)" by (simp add: push_bit_and)
  then show "push_bit 2 a AND 0x3C = (a mod 16) * 2 ^ 2"
    by (simp add: and_low_bits push_bit_eq_mult)
qed

lemma or_disjoint_add:
  fixes a b :: int
  assumes "0 \<le> b" and "b < 2 ^ n"
  shows "(a * 2 ^ n) OR b = a * 2 ^ n + b"
proof -
  have "take_bit n b = b" using assms by (simp add: take_bit_int_eq_self)
  moreover have "a * 2 ^ n = push_bit n a" by (simp add: push_bit_eq_mult)
  ultimately show ?thesis
    by (metis (no_types, lifting) bit_push_bit_iff bit_take_bit_iff disjunctive_add
        linorder_not_le)
qed

lemma split_low:
  fixes x c k :: int
  assumes "0 \<le> c" "c < k"
  shows "(x * k + c) div k = x" and "(x * k + c) mod k = c"
  using assms by simp_all

lemma uint_byte_range [simp]: "0 \<le> uint (b :: byte)" "uint (b :: byte) < 256"
  using unsigned_less [of b, where ?'a = int] by simp_all

lemma group24_div_256: "group24 a b c div 256 = uint a * 256 + uint b"
  using split_low(1) [of "uint c" 256 "uint a * 256 + uint b"]
  by (simp add: group24_def algebra_simps)

lemma base64_index0_digit: "base64_index0 (uint a) = group24 a b c div 64 ^ 3 mod 64"
proof -
  have "group24 a b c div 262144 = group24 a b c div 256 div 256 div 4"
    using zdiv_zmult2_eq [of 1024 "group24 a b c" 256]
      zdiv_zmult2_eq [of 4 "group24 a b c div 256" 256] by simp
  also have "\<dots> = uint a div 4"
    using split_low(1) [of "uint b" 256 "uint a"] by (simp add: group24_div_256)
  finally have "group24 a b c div 262144 = uint a div 4" .
  moreover have "uint a div 4 mod 64 = uint a div 4"
    using uint_byte_range [of a] by (intro mod_pos_pos_trivial) linarith+
  ultimately show ?thesis by (simp add: base64_index0_def drop_bit_eq_div)
qed

lemma base64_index1_digit:
  "base64_index1 (uint a) (uint b) = group24 a b c div 64 ^ 2 mod 64"
proof -
  have low: "0 \<le> uint b div 16" "uint b div 16 < 16"
    using uint_byte_range [of b] by linarith+
  have "group24 a b c div 4096 = (uint a * 256 + uint b) div 16"
    using zdiv_zmult2_eq [of 16 "group24 a b c" 256] by (simp add: group24_div_256)
  also have "\<dots> = uint a * 16 + uint b div 16"
    using div_mult_self3 [of 16 "uint a * 16" "uint b"] by (simp add: algebra_simps)
  also have "(uint a * 16 + uint b div 16) mod 64 = 16 * (uint a mod 4) + uint b div 16"
    using zmod_zmult2_eq [of 4 "uint a * 16 + uint b div 16" 16]
      split_low [OF low, of "uint a"] by simp
  finally show ?thesis
    using or_disjoint_add [of "uint b div 16" 4 "uint a mod 4"] low
    by (simp add: base64_index1_def shifted_masks drop_bit_eq_div)
qed

lemma base64_index2_digit:
  "base64_index2 (uint b) (uint c) = group24 a b c div 64 ^ 1 mod 64"
proof -
  have low: "0 \<le> uint c div 64" "uint c div 64 < 4"
    using uint_byte_range [of c] by linarith+
  have "group24 a b c div 64 = uint a * 1024 + (uint b * 4 + uint c div 64)"
    using div_mult_self3 [of 64 "uint a * 1024 + uint b * 4" "uint c"]
    by (simp add: group24_def algebra_simps)
  also have "\<dots> mod 64 = (uint b * 4 + uint c div 64) mod 64"
    using mod_mult_self3 [of "uint a * 16" 64 "uint b * 4 + uint c div 64"]
    by (simp add: mult.commute)
  also have "\<dots> = 4 * (uint b mod 16) + uint c div 64"
    using zmod_zmult2_eq [of 16 "uint b * 4 + uint c div 64" 4]
      split_low [OF low, of "uint b"] by simp
  finally show ?thesis
    using or_disjoint_add [of "uint c div 64" 2 "uint b mod 16"] low
    by (simp add: base64_index2_def shifted_masks drop_bit_eq_div)
qed

lemma base64_index3_digit: "base64_index3 (uint c) = group24 a b c div 64 ^ 0 mod 64"
  using mod_mult_self3 [of "uint a * 1024 + uint b * 4" 64 "uint c"]
  by (simp add: base64_index3_def and_low_bits group24_def algebra_simps)

lemmas base64_digits = base64_index0_digit base64_index1_digit base64_index2_digit
  base64_index3_digit


lemma base64_text_unfold:
  assumes "data \<noteq> []"
  shows "base64_text data =
     (let n = group24 (data ! 0) (if 2 \<le> length data then data ! 1 else 0)
                (if 3 \<le> length data then data ! 2 else 0)
      in [base64_digit n 3, base64_digit n 2,
          (if 2 \<le> length data then base64_digit n 1 else CHR ''=''),
          (if 3 \<le> length data then base64_digit n 0 else CHR ''='')] @ base64_text (drop 3 data))"
  using assms by (cases data rule: base64_text.cases) (simp_all add: Let_def)

lemma base64_char_digits:
  "base64_char (base64_index0 (uint a)) = base64_digit (group24 a b c) 3"
  "base64_char (base64_index1 (uint a) (uint b)) = base64_digit (group24 a b c) 2"
  "base64_char (base64_index2 (uint b) (uint c)) = base64_digit (group24 a b c) 1"
  "base64_char (base64_index3 (uint c)) = base64_digit (group24 a b c) 0"
  unfolding base64_digit_def
  by (simp_all only: base64_index0_digit [of a b c] base64_index1_digit [of a b c]
      base64_index2_digit [of b c a] base64_index3_digit [of c a b])

lemma put_char_plain [simp]:
  "width out = 0 \<Longrightarrow> put_char c out = out\<lparr>written := written out @ [c], width := 0\<rparr>"
  by (simp add: put_char_def put_string_def padded_def)

lemma base64_loop_written:
  "width out = 0 \<Longrightarrow> written (base64_loop data i out) = written out @ base64_text (drop i data)"
proof (induction "length data - i" arbitrary: i out rule: less_induct)
  case less
  show ?case
  proof (cases "i < length data")
    case False
    then show ?thesis by (simp add: base64_loop.simps [of data i out])
  next
    case True
    define a where "a = data ! i"
    define b where "b = (if i + 2 \<le> length data then data ! (i + 1) else 0)"
    define c where "c = (if i + 3 \<le> length data then data ! (i + 2) else 0)"
    define quad where "quad = [base64_digit (group24 a b c) 3, base64_digit (group24 a b c) 2,
        (if i + 2 \<le> length data then base64_digit (group24 a b c) 1 else CHR ''=''),
        (if i + 3 \<le> length data then base64_digit (group24 a b c) 0 else CHR ''='')]"
    have left: "n \<le> length data - i \<longleftrightarrow> i + n \<le> length data" for n
      using True by auto
    have chars: "base64_char (base64_index0 (uint a)) = base64_digit (group24 a b c) 3"
      "base64_char (base64_index1 (uint a) (uint b)) = base64_digit (group24 a b c) 2"
      "base64_char (base64_index2 (uint b) (uint c)) = base64_digit (group24 a b c) 1"
      "base64_char (base64_index3 (uint c)) = base64_digit (group24 a b c) 0"
      by (rule base64_char_digits)+
    have step: "base64_loop data i out =
        base64_loop data (i + 3) (out\<lparr>written := written out @ quad, width := 0\<rparr>)"
      using True less.prems chars
      unfolding base64_loop.simps [of data i out] Let_def left a_def [symmetric]
        b_def [symmetric] c_def [symmetric]
      by (simp add: quad_def)
    have "base64_text (drop i data) = quad @ base64_text (drop (i + 3) data)"
      using True base64_text_unfold [of "drop i data"]
      by (simp add: quad_def a_def b_def c_def left Let_def add.commute)
    then show ?thesis
      using less.hyps [of "i + 3" "out\<lparr>written := written out @ quad, width := 0\<rparr>"] True step
      by simp
  qed
qed

lemma base64_decode_written:
  "width out = 0 \<Longrightarrow> written (snd (base64_decode data out)) = written out @ base64_text data"
  by (simp add: base64_decode_def base64_loop_written)


section \<open>The formatter interface\<close>

text \<open>
  What a client of \<open>ResourceFormatter::decode\<close> relies on: it returns 0, it appends a text that
  depends on the data alone, and that text is printable, so a log line stays one line and an
  environment variable has no embedded null.
\<close>

locale resource_formatter =
  fixes dec :: "bytes \<Rightarrow> ostream \<Rightarrow> int \<times> ostream"
    and shown :: "bytes \<Rightarrow> string"
  assumes returns_0: "fst (dec data out) = 0"
    and appends: "width out = 0 \<Longrightarrow> \<not> flag_upper out \<Longrightarrow>
      written (snd (dec data out)) = written out @ shown data"
    and printable: "c \<in> set (shown data) \<Longrightarrow> isprint c"
begin

lemma on_fresh_stream: "written (snd (dec data new_ostream)) = shown data"
  using appends [of new_ostream data] by (simp add: new_ostream_def)

lemma single_line: "CHR 0x0A \<notin> set (shown data)"
  using printable [of "CHR 0x0A" data] by (auto simp: isprint_def code_def)

lemma no_null: "c_string (shown data) = shown data"
  by (rule c_string_id) (use printable [of NUL data] in \<open>auto simp: isprint_def code_def NUL_def\<close>)

end

text \<open>A formatter whose text determines the data.\<close>

locale lossless_formatter = resource_formatter +
  fixes parse :: "string \<Rightarrow> bytes option"
  assumes parse_shown: "parse (shown data) = Some data"
begin

lemma shown_inject: "shown d = shown d' \<longleftrightarrow> d = d'"
  using parse_shown by (metis option.inject)

end

subsection \<open>Parsing hexadecimal and base 64\<close>

definition hex_value :: "char \<Rightarrow> nat" where
  "hex_value c =
     (if isdigit c then code c - 48 else if code c < 97 then code c - 55 else code c - 87)"

fun hex_parse :: "string \<Rightarrow> bytes option" where
  "hex_parse [] = Some []"
| "hex_parse (a # b # s) =
     map_option (\<lambda>ds. word_of_nat (16 * hex_value a + hex_value b) # ds) (hex_parse s)"
| "hex_parse [_] = None"

lemma hex_value_digit_char: "d < 16 \<Longrightarrow> hex_value (digit_char u d) = d"
  by (simp add: hex_value_def code_digit_char isdigit_def)

lemma hex_pair_value: "16 * hex_value (digit_char u (unat (b :: byte) div 16)) +
    hex_value (digit_char u (unat b mod 16)) = unat b"
  using unat_byte_nibbles [of b] by (simp add: hex_value_digit_char)

lemma word_of_nat_unat_byte: "word_of_nat (unat b) = (b :: byte)"
  by (simp add: word_unat_eq_iff)

lemma hex_parse_text: "hex_parse (hex_text data) = Some data"
  by (induction data)
    (simp_all add: hex_text_def hex_pair_def hex_pair_value word_of_nat_unat_byte
      del: of_nat_unat)

text \<open>The value of a base-64 digit (RFC 4648, table 1), and decoding by quads.\<close>

definition base64_value :: "char \<Rightarrow> int option" where
  "base64_value c =
     (let k = int (code c) in
      if 65 \<le> k \<and> k \<le> 90 then Some (k - 65)
      else if 97 \<le> k \<and> k \<le> 122 then Some (k - 71)
      else if 48 \<le> k \<and> k \<le> 57 then Some (k + 4)
      else if k = 43 then Some 62 else if k = 47 then Some 63 else None)"

fun base64_parse :: "string \<Rightarrow> bytes option" where
  "base64_parse [] = Some []"
| "base64_parse (p # q # r # t # s) =
     (case (base64_value p, base64_value q) of
        (Some x, Some y) \<Rightarrow>
          if r = CHR ''='' \<and> t = CHR ''='' \<and> s = [] then Some [word_of_int (x * 4 + y div 16)]
          else (case base64_value r of
            None \<Rightarrow> None
          | Some z \<Rightarrow>
              if t = CHR ''='' \<and> s = []
              then Some [word_of_int (x * 4 + y div 16), word_of_int (y * 16 + z div 4)]
              else (case (base64_value t, base64_parse s) of
                (Some w, Some ds) \<Rightarrow>
                  Some (word_of_int (x * 4 + y div 16) # word_of_int (y * 16 + z div 4) #
                        word_of_int (z * 64 + w) # ds)
              | _ \<Rightarrow> None))
      | _ \<Rightarrow> None)"
| "base64_parse _ = None"

lemma base64_table: "\<forall>k \<in> set [0..63]. isprint (base64_char k) \<and> base64_char k \<noteq> CHR ''='' \<and>
    base64_value (base64_char k) = Some k"
  by (simp add: upto.simps base64_char_def base64_chars_def char_at_def isprint_def
      base64_value_def code_def)

lemma base64_digit_facts:
  "isprint (base64_digit n k)" "base64_digit n k \<noteq> CHR ''=''"
  "base64_value (base64_digit n k) = Some (n div 64 ^ k mod 64)"
proof -
  have "n div 64 ^ k mod 64 \<in> set [0..63]"
    using pos_mod_bound [of 64 "n div 64 ^ k"] by simp
  then show "isprint (base64_digit n k)" "base64_digit n k \<noteq> CHR ''=''"
    "base64_value (base64_digit n k) = Some (n div 64 ^ k mod 64)"
    using base64_table by (auto simp: base64_digit_def)
qed

lemma word_of_int_carry: "word_of_int (k * 256 + uint b) = (b :: byte)"
proof -
  have "uint (word_of_int (k * 256 + uint b) :: byte) = (k * 256 + uint b) mod 2 ^ LENGTH(8)"
    by (rule uint_word_of_int)
  also have "\<dots> = uint b" using split_low(2) [of "uint b" 256 k] by simp
  finally show ?thesis by (simp only: word_uint_eq_iff)
qed

lemma uint_byte_div:
  "0 \<le> uint (b :: byte) div 16" "uint (b :: byte) div 16 < 2 ^ 4"
  "0 \<le> uint (b :: byte) div 64" "uint (b :: byte) div 64 < 2 ^ 2"
  using uint_byte_range [of b] by (simp_all, linarith+)

text \<open>The four digits of a group give its three bytes back.\<close>

lemma group24_bytes:
  fixes a b c :: byte
  defines "n \<equiv> group24 a b c"
  shows "word_of_int ((n div 64 ^ 3 mod 64) * 4 + (n div 64 ^ 2 mod 64) div 16) = a"
    and "word_of_int ((n div 64 ^ 2 mod 64) * 16 + (n div 64 ^ 1 mod 64) div 4) = b"
    and "word_of_int ((n div 64 ^ 1 mod 64) * 64 + n div 64 ^ 0 mod 64) = c"
proof -
  let ?x = "n div 64 ^ 3 mod 64" and ?y = "n div 64 ^ 2 mod 64"
  let ?z = "n div 64 ^ 1 mod 64" and ?w = "n div 64 ^ 0 mod 64"
  note low = uint_byte_div(1,2) [of b] uint_byte_div(3,4) [of c]
  have carry16: "q * 16 + r = t \<Longrightarrow> (p * 16 + q) * 16 + r = p * 256 + t" for p q r t :: int
    by simp
  have carry64: "q * 64 + r = t \<Longrightarrow> (p * 4 + q) * 64 + r = p * 256 + t" for p q r t :: int
    by simp
  have x: "?x = uint a div 4"
    using base64_index0_digit [of a b c] by (simp add: n_def base64_index0_def drop_bit_eq_div)
  have y: "?y = (uint a mod 4) * 16 + uint b div 16"
    using base64_index1_digit [of a b c] or_disjoint_add [OF low(1,2), of "uint a mod 4"]
    by (simp add: n_def base64_index1_def shifted_masks drop_bit_eq_div)
  have z: "?z = (uint b mod 16) * 4 + uint c div 64"
    using base64_index2_digit [of b c a] or_disjoint_add [OF low(3,4), of "uint b mod 16"]
    by (simp add: n_def base64_index2_def shifted_masks drop_bit_eq_div)
  have w: "?w = uint c mod 64"
    using base64_index3_digit [of c a b] by (simp add: n_def base64_index3_def and_low_bits)
  have "?y div 16 = uint a mod 4"
    unfolding y by (rule split_low(1)) (use low in simp_all)
  then have "?x * 4 + ?y div 16 = uint a"
    unfolding x by (simp only: div_mult_mod_eq)
  then show "word_of_int (?x * 4 + ?y div 16) = a" by simp
  have q: "?z div 4 = uint b mod 16"
    unfolding z by (rule split_low(1)) (use low in simp_all)
  have "?y * 16 + ?z div 4 = (uint a mod 4) * 256 + uint b"
    unfolding y q by (rule carry16) (rule div_mult_mod_eq)
  then show "word_of_int (?y * 16 + ?z div 4) = b" by (simp only: word_of_int_carry)
  have "?z * 64 + ?w = (uint b mod 16) * 256 + uint c"
    unfolding z w by (rule carry64) (rule div_mult_mod_eq)
  then show "word_of_int (?z * 64 + ?w) = c" by (simp only: word_of_int_carry)
qed

lemma base64_parse_quad:
  assumes "base64_value p = Some x" "base64_value q = Some y" "base64_value r = Some z"
    and "r \<noteq> CHR ''=''"
  shows "base64_parse [p, q, CHR ''='', CHR ''=''] = Some [word_of_int (x * 4 + y div 16)]"
    and "base64_parse [p, q, r, CHR ''=''] =
      Some [word_of_int (x * 4 + y div 16), word_of_int (y * 16 + z div 4)]"
    and "base64_value t = Some w \<Longrightarrow> t \<noteq> CHR ''='' \<Longrightarrow> base64_parse s = Some ds \<Longrightarrow>
      base64_parse (p # q # r # t # s) =
        Some ([word_of_int (x * 4 + y div 16), word_of_int (y * 16 + z div 4),
          word_of_int (z * 64 + w)] @ ds)"
  using assms by simp_all

lemma base64_parse_text: "base64_parse (base64_text data) = Some data"
proof (induction data rule: base64_text.induct)
  case (2 a)
  note quad = base64_parse_quad(1) [OF base64_digit_facts(3,3,3,2)]
  show ?case
    unfolding base64_text.simps list.map append.simps quad group24_bytes ..
next
  case (3 a b)
  note quad = base64_parse_quad(2) [OF base64_digit_facts(3,3,3,2)]
  show ?case
    unfolding base64_text.simps list.map append.simps quad group24_bytes ..
next
  case (4 a b c data)
  note quad = base64_parse_quad(3) [OF base64_digit_facts(3,3,3,2,3,2) "4.IH"]
  show ?case
    unfolding base64_text.simps list.map append.simps quad group24_bytes ..
qed simp

lemma base64_text_length: "length (base64_text data) = 4 * ((length data + 2) div 3)"
  by (induction data rule: base64_text.induct) (simp_all, arith)

lemma base64_text_chars: "c \<in> set (base64_text data) \<Longrightarrow> isprint c"
  by (induction data rule: base64_text.induct)
    (auto simp: base64_digit_facts isprint_def [of "CHR ''=''"] code_def)

lemma hex_text_chars: "c \<in> set (hex_text data) \<Longrightarrow> isprint c"
  by (auto simp: hex_text_def hex_pair_def isprint_digit_char)

lemma text_text_chars: "c \<in> set (text_text data) \<Longrightarrow> isprint c"
proof -
  have "isprint (CHR 0x5C)" "isprint (CHR ''x'')" by (simp_all add: isprint_def code_def)
  then have "\<forall>c \<in> set (text_text_byte b). isprint c" for b
    by (simp add: text_text_byte_def hex_pair_def isprint_digit_char)
  then show "c \<in> set (text_text data) \<Longrightarrow> isprint c" by (auto simp: text_text_def)
qed

interpretation text_fmt: resource_formatter text_decode text_text
  by unfold_locales (auto simp: text_decode_written text_text_chars, simp add: text_decode_def)

interpretation hex_fmt: lossless_formatter hex_decode hex_text hex_parse
  by unfold_locales
    (auto simp: hex_decode_written hex_text_chars hex_parse_text, simp add: hex_decode_def)

interpretation base64_fmt: lossless_formatter base64_decode base64_text base64_parse
  by unfold_locales
    (auto simp: base64_decode_written base64_text_chars base64_parse_text,
      simp add: base64_decode_def)

text \<open>The virtual call: whichever formatter the factory made, the interface holds.\<close>

interpretation any_fmt: resource_formatter "decode f" "text_of f" for f
  by (cases f)
    (simp_all add: text_fmt.resource_formatter_axioms hex_fmt.resource_formatter_axioms
      base64_fmt.resource_formatter_axioms)

lemma formatted_text_of: "formatted f data = text_of f data"
  by (simp add: formatted_def any_fmt.on_fresh_stream)

subsection \<open>The text formatter\<close>

text \<open>
  The text formatter does not escape the backslash, so its text can be read back only where the
  data has none.
\<close>

fun text_unescape :: "string \<Rightarrow> bytes" where
  "text_unescape [] = []"
| "text_unescape (c # s) =
     (if c = CHR 0x5C
      then (case s of x # a # b # s' \<Rightarrow> word_of_nat (16 * hex_value a + hex_value b) # text_unescape s'
            | _ \<Rightarrow> [])
      else byte_of_char c # text_unescape s)"

lemma text_unescape_text:
  "0x5C \<notin> set data \<Longrightarrow> text_unescape (text_text data) = data"
proof (induction data)
  case (Cons b data)
  have "char_of_byte b \<noteq> CHR 0x5C"
    using Cons.prems by (auto simp: word_unat_eq_iff simp flip: code_inject) (simp add: code_def)
  moreover have "word_of_nat (16 * hex_value (digit_char False (unat b div 16)) +
      hex_value (digit_char False (unat b mod 16))) = b"
    unfolding hex_pair_value by (rule word_of_nat_unat_byte)
  ultimately show ?case
    using Cons by (simp add: text_text_def text_text_byte_def hex_pair_def)
qed (simp add: text_text_def)

lemma text_text_printable:
  "\<forall>b \<in> set data. isprint (char_of_byte b) \<Longrightarrow> text_text data = map char_of_byte data"
  by (induction data) (simp_all add: text_text_def text_text_byte_def)

text \<open>
  The text does not determine the data when it has backslashes: a null byte and the four characters
  of its escape look the same.
\<close>

lemma text_ambiguous:
  "formatted FormatterText [0] = formatted FormatterText (map byte_of_char (CHR 0x5C # ''x00''))"
  by code_simp

section \<open>Properties\<close>


text \<open>C36: the hexadecimal formatter writes two upper-case digits for each byte, from which the data can
  be read back.\<close>

theorem hex_roundtrip:
  "hex_parse (formatted FormatterHex data) = Some data \<and>
   length (formatted FormatterHex data) = 2 * length data"
proof -
  have "length (hex_text data) = 2 * length data"
    by (induction data) (simp_all add: hex_text_def hex_pair_def)
  then show ?thesis by (simp add: formatted_text_of hex_parse_text)
qed

text \<open>C37: whatever bytes a client sends, every formatter succeeds and adds printable characters only,
  so a log entry stays one line and the environment variable of a command has no null character.\<close>

theorem formatted_printable:
  "fst (decode f data out) = 0 \<and> list_all isprint (formatted f data) \<and>
   c_string (formatted f data) = formatted f data \<and> CHR 0x0A \<notin> set (formatted f data)"
  using any_fmt.returns_0 any_fmt.printable any_fmt.no_null any_fmt.single_line
  by (auto simp: formatted_text_of list_all_iff)

text \<open>The text formatter shows printable data unchanged, and data without a backslash can be read
  back from its text.\<close>

lemma text_readable:
  assumes "0x5C \<notin> set data"
  shows "text_unescape (formatted FormatterText data) = data"
  by (simp add: formatted_text_of text_unescape_text [OF assms])

lemma text_readable_example:
  "text_unescape (formatted FormatterText [0x61, 0x0A, 0xFF]) = [0x61, 0x0A, 0xFF]"
  by (rule text_readable) simp

end
