(* ===== verification/ConfigTypes.thy ===== *)
theory ConfigTypes
  imports CxxStd
begin

text \<open>
  The configuration data of \<open>inc/Config.hpp\<close>, with the member initialisers of the header as default
  values.
\<close>

datatype ResourceMethodType = MethodNone | GET | POST | PUT | DELETE | FETCH | PATCH | iPATCH

datatype EndpointTransport = TransportNONE | UDP | DTLS | TCP | TLS

record ResourceMethodConfig =
  method_type :: ResourceMethodType
  format :: "string list"
  printValue :: bool
  logValue :: bool
  store :: bool
  cmd :: string
  cmdStdin :: bool
  cmdTimeout :: u32
  cmdLogInput :: bool

definition default_method_config :: ResourceMethodConfig where
  "default_method_config = \<lparr>method_type = MethodNone, format = [], printValue = False,
     logValue = False, store = False, cmd = [], cmdStdin = False, cmdTimeout = 500,
     cmdLogInput = False\<rparr>"

record ResourceConfig =
  resourceName :: string
  resourcePath :: string
  logFile :: string
  initialValue :: string
  dataFile :: string
  maxAge :: u32
  observable :: bool
  dynamic :: bool
  methods :: "ResourceMethodConfig list"

definition default_resource_config :: ResourceConfig where
  "default_resource_config = \<lparr>resourceName = [], resourcePath = [], logFile = [],
     initialValue = [], dataFile = [], maxAge = 3600, observable = False, dynamic = False,
     methods = []\<rparr>"

record TemplateInstance =
  templateId :: string
  templateArgs :: "string list"

record TemplateConfig =
  templateName :: string
  templateIdent :: string
  template_resources :: "ResourceConfig list"
  template_args :: "string list"

record SecurityConfig =
  key :: string
  cert :: string
  ca :: string

record EndpointConfig =
  address :: string
  port :: string
  logDir :: string
  globalLogFile :: string
  transport :: EndpointTransport
  security :: SecurityConfig

definition default_endpoint_config :: EndpointConfig where
  "default_endpoint_config = \<lparr>address = ''0.0.0.0'', port = ''5683'', logDir = [],
     globalLogFile = ''coap_server.log'', transport = UDP,
     security = \<lparr>key = [], cert = [], ca = []\<rparr>\<rparr>"

record Config =
  config_endpoint :: EndpointConfig
  config_resources :: "ResourceConfig list"

text \<open>
  What the configuration constructors guarantee and the server relies on: a resource has at most
  one method each of \<open>GET\<close>, \<open>POST\<close> and \<open>PUT\<close>, in this order and nothing else, and a method runs a
  command only with exactly one formatter.
\<close>

definition method_config_ok :: "ResourceMethodConfig \<Rightarrow> bool" where
  "method_config_ok m \<longleftrightarrow>
     method_type m \<in> {GET, POST, PUT} \<and> (cmd m \<noteq> [] \<longrightarrow> length (format m) = 1)"

definition resource_config_ok :: "ResourceConfig \<Rightarrow> bool" where
  "resource_config_ok r \<longleftrightarrow> list_all method_config_ok (methods r) \<and>
     map method_type (methods r) = filter (\<lambda>t. t \<in> set (map method_type (methods r))) [GET, POST, PUT]"

end
