(* ===== verification/Templates.thy ===== *)
theory Templates
  imports ConfigTypes
begin

text \<open>
  Template expansion (\<open>src/Config.cpp\<close>): the substitution of \<open>$1\<close>, \<open>$2\<close>, \<open>\<dots>\<close> in a template string
  by \<open>_TemplateReplace\<close>, and the generation of resources from a template and an instance by
  \<open>TemplateConfig::GenerateResources\<close>.
\<close>

section \<open>The substitution loop\<close>

text \<open>
  \<open>while(isdigit(in[i]))\<close>: the index is a \<open>size_t\<close> and wraps around. \<open>char_at\<close> is the null
  character at \<open>size()\<close>, which is not a digit, so the loop stops there at the latest.
\<close>

function digits_loop :: "string \<Rightarrow> nat \<Rightarrow> size_t \<Rightarrow> size_t \<times> nat" where
  "digits_loop inp i idx =
     (if isdigit (char_at inp i)
      then digits_loop inp (i + 1) (idx * 10 + word_of_nat (digit_value (char_at inp i)))
      else (idx, i))"
  by pat_completeness auto
termination
  by (relation "measure (\<lambda>(inp, i, idx). length inp - i)")
    (auto simp: char_at_def split: if_splits)

declare digits_loop.simps [simp del]

text \<open>The decimal value of a digit string as the loop computes it, modulo \<open>2 ^ 64\<close>.\<close>

definition decimal :: "size_t \<Rightarrow> string \<Rightarrow> size_t" where
  "decimal idx ds = foldl (\<lambda>n c. n * 10 + word_of_nat (digit_value c)) idx ds"

lemma digits_loop_eq:
  "digits_loop inp i idx =
     (decimal idx (takeWhile isdigit (drop i inp)), i + length (takeWhile isdigit (drop i inp)))"
proof (induction inp i idx rule: digits_loop.induct)
  case (1 inp i idx)
  show ?case
  proof (cases "isdigit (char_at inp i)")
    case True
    then have "i < length inp" by (auto simp: char_at_def split: if_splits)
    then have "drop i inp = char_at inp i # drop (i + 1) inp"
      by (simp add: char_at_def Cons_nth_drop_Suc)
    then show ?thesis
      using True "1.IH" [OF True]
      by (simp add: digits_loop.simps [of inp i idx] decimal_def)
  next
    case False
    then have "takeWhile isdigit (drop i inp) = []"
      by (cases "i < length inp")
        (auto simp: char_at_def simp flip: Cons_nth_drop_Suc)
    then show ?thesis
      using False by (simp add: digits_loop.simps [of inp i idx] decimal_def)
  qed
qed

lemma digits_loop_advances:
  assumes "isdigit (char_at inp i)" and "digits_loop inp i idx = (r, j)"
  shows "i < j" and "j \<le> length inp"
proof -
  have i: "i < length inp" using assms(1) by (auto simp: char_at_def split: if_splits)
  then have d: "drop i inp = char_at inp i # drop (Suc i) inp"
    by (simp add: char_at_def Cons_nth_drop_Suc)
  have j: "j = i + length (takeWhile isdigit (drop i inp))"
    using assms(2) by (simp add: digits_loop_eq)
  show "i < j" using assms(1) by (simp add: j d)
  have "length (takeWhile isdigit (drop i inp)) \<le> length (drop i inp)"
    by (rule length_takeWhile_le)
  then show "j \<le> length inp" using i j by simp
qed

definition not_enough_args :: "string \<Rightarrow> failure" where
  "not_enough_args inp = RuntimeError
     (''ERROR: Template instance does not have enough arguments for template string: `'' @ inp @ ''`!'')"

definition zero_arg :: "string \<Rightarrow> failure" where
  "zero_arg inp = RuntimeError
     (''ERROR: Template string argument specifier cannot be zero: `'' @ inp @ ''`!'')"

definition bad_template :: "string \<Rightarrow> failure" where
  "bad_template inp = RuntimeError
     (''ERROR: Improperly formatted template string: `'' @ inp @ ''`!'')"

text \<open>The \<open>for\<close> loop of \<open>_TemplateReplace\<close>; \<open>i\<close> and \<open>j\<close> follow the increments of the source.\<close>

function template_loop :: "string \<Rightarrow> string list \<Rightarrow> nat \<Rightarrow> string \<Rightarrow> string res" where
  "template_loop inp args i out =
     (if i < length inp then
        if char_at inp i = CHR ''$'' then
          if char_at inp (i + 1) = CHR ''$'' then
            template_loop inp args (i + 1 + 1) (out @ [char_at inp (i + 1)])
          else if isdigit (char_at inp (i + 1)) then
            (case digits_loop inp (i + 1) 0 of (idx, j) \<Rightarrow>
               if length args < unat idx then Inl (not_enough_args inp)
               else if idx = 0 then Inl (zero_arg inp)
               else template_loop inp args (j - 1 + 1) (out @ args ! (unat idx - 1)))
          else Inl (bad_template inp)
        else template_loop inp args (i + 1) (out @ [char_at inp i])
      else Inr out)"
  by pat_completeness auto
termination
proof (relation "measure (\<lambda>(inp, args, i, out). length inp - i)", goal_cases)
  case 3
  then show ?case by (auto dest!: sym [of "(_, _)"] digits_loop_advances(1) [rotated])
qed auto

declare template_loop.simps [simp del]

definition TemplateReplace :: "string \<Rightarrow> TemplateInstance \<Rightarrow> string res" where
  "TemplateReplace inp inst = template_loop inp (templateArgs inst) 0 []"

section \<open>The language of template strings\<close>

text \<open>
  A template string read from the left: literal characters, argument references and, where it is
  malformed, a final \<open>Malformed\<close>.
\<close>

datatype piece = Literal char | Argument size_t | Malformed

function pieces :: "string \<Rightarrow> piece list" where
  "pieces [] = []"
| "pieces (c # s) =
     (if c \<noteq> CHR ''$'' then Literal c # pieces s
      else if char_at s 0 = CHR ''$'' then Literal (CHR ''$'') # pieces (tl s)
      else if isdigit (char_at s 0)
      then Argument (decimal 0 (takeWhile isdigit s)) # pieces (dropWhile isdigit s)
      else [Malformed])"
  by pat_completeness auto
termination
  by (relation "measure length") (auto simp: less_Suc_eq_le length_dropWhile_le)

definition piece_text :: "string \<Rightarrow> string list \<Rightarrow> piece \<Rightarrow> string res" where
  "piece_text inp args p = (case p of
       Literal c \<Rightarrow> Inr [c]
     | Argument idx \<Rightarrow>
         if length args < unat idx then Inl (not_enough_args inp)
         else if idx = 0 then Inl (zero_arg inp)
         else Inr (args ! (unat idx - 1))
     | Malformed \<Rightarrow> Inl (bad_template inp))"

definition template_text :: "string \<Rightarrow> string list \<Rightarrow> string \<Rightarrow> string res" where
  "template_text inp args s = ebind (emap (piece_text inp args) (pieces s)) (\<lambda>ts. Inr (concat ts))"

lemma template_text_Nil [simp]: "template_text inp args [] = Inr []"
  by (simp add: template_text_def)

lemma template_text_pieces:
  "pieces s = p # pieces s' \<Longrightarrow> template_text inp args s =
     ebind (piece_text inp args p) (\<lambda>t. ebind (template_text inp args s') (\<lambda>r. Inr (t @ r)))"
  by (cases "piece_text inp args p")
    (auto simp: template_text_def ebind_assoc)

lemma template_text_malformed:
  "pieces s = [Malformed] \<Longrightarrow> template_text inp args s = Inl (bad_template inp)"
  by (simp add: template_text_def piece_text_def)

text \<open>The pieces from position \<open>i\<close> on, by the cases of the loops.\<close>

lemma pieces_at:
  assumes "i < length inp"
  shows pieces_at_literal: "char_at inp i \<noteq> CHR ''$'' \<Longrightarrow>
      pieces (drop i inp) = Literal (char_at inp i) # pieces (drop (i + 1) inp)"
    and pieces_at_dollar: "char_at inp i = CHR ''$'' \<Longrightarrow> char_at inp (i + 1) = CHR ''$'' \<Longrightarrow>
      pieces (drop i inp) = Literal (CHR ''$'') # pieces (drop (i + 1 + 1) inp)"
    and pieces_at_argument: "char_at inp i = CHR ''$'' \<Longrightarrow> char_at inp (i + 1) \<noteq> CHR ''$'' \<Longrightarrow>
      isdigit (char_at inp (i + 1)) \<Longrightarrow> digits_loop inp (i + 1) 0 = (idx, j) \<Longrightarrow>
      pieces (drop i inp) = Argument idx # pieces (drop j inp) \<and> j - 1 + 1 = j"
    and pieces_at_malformed: "char_at inp i = CHR ''$'' \<Longrightarrow> char_at inp (i + 1) \<noteq> CHR ''$'' \<Longrightarrow>
      \<not> isdigit (char_at inp (i + 1)) \<Longrightarrow> pieces (drop i inp) = [Malformed]"
proof -
  have d: "drop i inp = char_at inp i # drop (i + 1) inp"
    using assms by (simp add: char_at_def Cons_nth_drop_Suc)
  have c1: "char_at (drop (i + 1) inp) 0 = char_at inp (i + 1)"
    by (auto simp: char_at_def)
  have tl: "tl (drop (i + 1) inp) = drop (i + 1 + 1) inp" by (simp add: drop_Suc tl_drop)
  show "char_at inp i \<noteq> CHR ''$'' \<Longrightarrow>
      pieces (drop i inp) = Literal (char_at inp i) # pieces (drop (i + 1) inp)"
    by (simp add: d)
  show "char_at inp i = CHR ''$'' \<Longrightarrow> char_at inp (i + 1) = CHR ''$'' \<Longrightarrow>
      pieces (drop i inp) = Literal (CHR ''$'') # pieces (drop (i + 1 + 1) inp)"
    using c1 tl by (simp add: d)
  show "char_at inp i = CHR ''$'' \<Longrightarrow> char_at inp (i + 1) \<noteq> CHR ''$'' \<Longrightarrow>
      \<not> isdigit (char_at inp (i + 1)) \<Longrightarrow> pieces (drop i inp) = [Malformed]"
    using c1 by (simp add: d)
  assume arg: "char_at inp i = CHR ''$''" "char_at inp (i + 1) \<noteq> CHR ''$''"
    "isdigit (char_at inp (i + 1))" and loop: "digits_loop inp (i + 1) 0 = (idx, j)"
  have "idx = decimal 0 (takeWhile isdigit (drop (i + 1) inp))"
    and "drop j inp = dropWhile isdigit (drop (i + 1) inp)"
    using loop by (auto simp: digits_loop_eq dropWhile_eq_drop add.commute)
  then show "pieces (drop i inp) = Argument idx # pieces (drop j inp) \<and> j - 1 + 1 = j"
    using arg c1 digits_loop_advances(1) [OF arg(3) loop] by (simp add: d)
qed

text \<open>The loop computes the text of the pieces.\<close>

lemma template_loop_text:
  "template_loop inp args i out = ebind (template_text inp args (drop i inp)) (\<lambda>r. Inr (out @ r))"
proof (induction inp args i out rule: template_loop.induct)
  case (1 inp args i out)
  note unfold = template_loop.simps [of inp args i out]
  show ?case
  proof (cases "i < length inp")
    case False
    then show ?thesis by (simp add: unfold)
  next
    case True
    consider (lit) "char_at inp i \<noteq> CHR ''$''"
      | (dollar) "char_at inp i = CHR ''$''" "char_at inp (i + 1) = CHR ''$''"
      | (arg) "char_at inp i = CHR ''$''" "char_at inp (i + 1) \<noteq> CHR ''$''"
          "isdigit (char_at inp (i + 1))"
      | (bad) "char_at inp i = CHR ''$''" "char_at inp (i + 1) \<noteq> CHR ''$''"
          "\<not> isdigit (char_at inp (i + 1))"
      by blast
    then show ?thesis
    proof cases
      case lit
      from template_text_pieces [OF pieces_at_literal [OF True lit]] show ?thesis
        using lit True "1.IH"(3) [OF True] by (simp add: unfold piece_text_def ebind_assoc)
    next
      case dollar
      from template_text_pieces [OF pieces_at_dollar [OF True dollar]] show ?thesis
        using dollar True "1.IH"(1) [OF True] by (simp add: unfold piece_text_def ebind_assoc)
    next
      case arg
      obtain idx j where loop: "digits_loop inp (i + 1) 0 = (idx, j)" by fastforce
      note p = pieces_at_argument [OF True arg loop]
      note expand = template_text_pieces [OF p [THEN conjunct1], of inp args]
      show ?thesis
        using arg True p "1.IH"(2) [OF True arg(1,2,3) loop [symmetric]]
        by (simp add: unfold loop loop [simplified] expand piece_text_def ebind_assoc)
    next
      case bad
      from template_text_malformed [OF pieces_at_malformed [OF True bad]] show ?thesis
        using bad True by (simp add: unfold)
    qed
  qed
qed

lemma TemplateReplace_text: "TemplateReplace inp inst = template_text inp (templateArgs inst) inp"
  by (cases "template_text inp (templateArgs inst) inp")
    (simp_all add: TemplateReplace_def template_loop_text)

text \<open>Doubling every \<open>$\<close> makes any string a template for itself.\<close>

definition escape_dollars :: "string \<Rightarrow> string" where
  "escape_dollars s = concat (map (\<lambda>c. if c = CHR ''$'' then ''$$'' else [c]) s)"

lemma pieces_escape: "pieces (escape_dollars s) = map Literal s"
  by (induction s) (simp_all add: escape_dollars_def)

lemma emap_literals:
  "emap (piece_text inp args) (map Literal s) = Inr (map (\<lambda>c. [c]) s)"
  by (induction s) (simp_all add: piece_text_def)

lemma TemplateReplace_literals:
  "pieces inp = map Literal s \<Longrightarrow> TemplateReplace inp inst = Inr s"
  by (simp add: TemplateReplace_text template_text_def emap_literals)

lemma pieces_no_dollar: "CHR ''$'' \<notin> set s \<Longrightarrow> pieces s = map Literal s"
  by (induction s) auto

lemma TemplateReplace_no_dollar: "CHR ''$'' \<notin> set s \<Longrightarrow> TemplateReplace s inst = Inr s"
  by (rule TemplateReplace_literals [OF pieces_no_dollar])

lemma TemplateReplace_Nil [simp]: "TemplateReplace [] inst = Inr []"
  by (simp add: TemplateReplace_no_dollar)

section \<open>Generating resources\<close>

text \<open>
  The inner loop of \<open>TemplateConfig::GenerateResources\<close>: one method of a template resource. The
  method object starts from the default values and gets every member assigned.
\<close>

definition generate_method ::
  "TemplateInstance \<Rightarrow> ResourceMethodConfig \<Rightarrow> ResourceMethodConfig res" where
  "generate_method inst mit =
     ebind (emap (\<lambda>f. TemplateReplace f inst) (format mit)) (\<lambda>fmts.
     ebind (TemplateReplace (cmd mit) inst) (\<lambda>c.
       Inr (default_method_config\<lparr>method_type := method_type mit, format := fmts,
         printValue := printValue mit, logValue := logValue mit, store := store mit,
         cmd := c, cmdStdin := cmdStdin mit, cmdTimeout := cmdTimeout mit,
         cmdLogInput := cmdLogInput mit\<rparr>)))"

text \<open>The outer loop: one resource. Only the members below are assigned.\<close>

definition generate_resource :: "TemplateInstance \<Rightarrow> ResourceConfig \<Rightarrow> ResourceConfig res" where
  "generate_resource inst it =
     ebind (TemplateReplace (resourceName it) inst) (\<lambda>name.
     ebind (TemplateReplace (resourcePath it) inst) (\<lambda>path.
     ebind (TemplateReplace (logFile it) inst) (\<lambda>log.
     ebind (TemplateReplace (dataFile it) inst) (\<lambda>data.
     ebind (TemplateReplace (initialValue it) inst) (\<lambda>value.
     ebind (emap (generate_method inst) (methods it)) (\<lambda>ms.
       Inr (default_resource_config\<lparr>resourceName := name, resourcePath := path, logFile := log,
         dataFile := data, initialValue := value, maxAge := maxAge it,
         observable := observable it, methods := ms\<rparr>)))))))"

definition GenerateResources ::
  "TemplateConfig \<Rightarrow> ResourceConfig list \<Rightarrow> TemplateInstance \<Rightarrow> ResourceConfig list res" where
  "GenerateResources templ resources inst =
     ebind (emap (generate_resource inst) (template_resources templ)) (\<lambda>rs. Inr (resources @ rs))"

lemma generate_method_keeps:
  assumes "generate_method inst m = Inr m'"
  shows "method_type m' = method_type m" "length (format m') = length (format m)"
    "printValue m' = printValue m" "logValue m' = logValue m" "store m' = store m"
    "cmdStdin m' = cmdStdin m" "cmdTimeout m' = cmdTimeout m" "cmdLogInput m' = cmdLogInput m"
    "cmd m = [] \<Longrightarrow> cmd m' = []"
  using assms by (auto simp: generate_method_def res_simps dest: emap_length)

lemma generate_method_ok:
  "generate_method inst m = Inr m' \<Longrightarrow> method_config_ok m \<Longrightarrow> method_config_ok m'"
  using generate_method_keeps [of inst m m'] by (auto simp: method_config_ok_def)

lemma generate_resource_keeps:
  assumes "generate_resource inst r = Inr r'"
  shows "list_all2 (\<lambda>m m'. generate_method inst m = Inr m') (methods r) (methods r')"
    "maxAge r' = maxAge r" "observable r' = observable r" "dynamic r' = False"
  using assms
  by (auto simp: generate_resource_def res_simps emap_Inr_iff default_resource_config_def)

lemma generate_resource_types:
  assumes "generate_resource inst r = Inr r'"
  shows "map method_type (methods r') = map method_type (methods r)"
  using generate_resource_keeps(1) [OF assms] generate_method_keeps(1)
  by (induction rule: list_all2_induct) auto

lemma generate_resource_ok:
  assumes "generate_resource inst r = Inr r'" and "resource_config_ok r"
  shows "resource_config_ok r'"
proof -
  have "list_all method_config_ok (methods r')"
    using generate_resource_keeps(1) [OF assms(1)] assms(2) generate_method_ok
    unfolding resource_config_ok_def list_all_length list_all2_conv_all_nth by metis
  then show ?thesis
    using assms(2) by (simp add: resource_config_ok_def generate_resource_types [OF assms(1)])
qed

lemma GenerateResources_ok:
  assumes "GenerateResources templ resources inst = Inr rs"
    and "list_all resource_config_ok resources"
    and "list_all resource_config_ok (template_resources templ)"
  shows "list_all resource_config_ok rs"
  using assms generate_resource_ok
  by (fastforce simp: GenerateResources_def res_simps list_all_iff dest: emap_set)

text \<open>
  The argument number is computed modulo \<open>2 ^ 64\<close> without a range check, so \<open>2 ^ 64 + 1\<close> is taken for 1
  instead of being reported.
\<close>

lemma template_index_wraps:
  "TemplateReplace ''$18446744073709551617'' \<lparr>templateId = t, templateArgs = [a]\<rparr> = Inr a"
proof -
  have "pieces ''$18446744073709551617'' = [Argument 1]" by code_simp
  then show ?thesis by (simp add: TemplateReplace_text template_text_def piece_text_def)
qed

section \<open>Properties\<close>

text \<open>C16: the substitution loop computes the template language: literal characters, \<open>$$\<close> for a
  dollar, \<open>$n\<close> for the argument number \<open>n\<close>, with the error of the leftmost piece that is malformed,
  zero or past the arguments.\<close>

theorem TemplateReplace_language:
  "TemplateReplace inp inst = template_text inp (templateArgs inst) inp"
  by (rule TemplateReplace_text)

text \<open>Every string can be written as a template: doubling its dollar signs gives it back, whatever
  the arguments.\<close>

lemma template_escape_roundtrip:
  "TemplateReplace (escape_dollars s) inst = Inr s"
  by (rule TemplateReplace_literals [OF pieces_escape])

text \<open>A generated resource has one method for each of the template's, with the same type, flags
  and timeout and the substituted formats and command, and the template's maximum age and
  observability; but it is never dynamic, even where the template says so.\<close>

lemma generated_resource:
  assumes "generate_resource inst it = Inr r"
  shows "list_all2 (\<lambda>m m'. generate_method inst m = Inr m' \<and> method_type m' = method_type m \<and>
      length (format m') = length (format m) \<and> printValue m' = printValue m \<and>
      logValue m' = logValue m \<and> store m' = store m \<and> cmdStdin m' = cmdStdin m \<and>
      cmdTimeout m' = cmdTimeout m \<and> cmdLogInput m' = cmdLogInput m) (methods it) (methods r) \<and>
    maxAge r = maxAge it \<and> observable r = observable it \<and> \<not> dynamic r"
  using generate_resource_keeps [OF assms] generate_method_keeps
  by (auto elim!: list_all2_mono)

lemma generated_resource_example:
  "let it = default_resource_config\<lparr>resourcePath := ''dev/$1'', dynamic := True,
        methods := [default_method_config\<lparr>method_type := GET, format := [''HEX'']\<rparr>]\<rparr>;
       r = default_resource_config\<lparr>resourcePath := ''dev/x'',
        methods := [default_method_config\<lparr>method_type := GET, format := [''HEX'']\<rparr>]\<rparr>
   in generate_resource \<lparr>templateId = ''t'', templateArgs = [''x'']\<rparr> it = Inr r \<and>
      dynamic it \<and> \<not> dynamic r"
proof -
  let ?it = "default_resource_config\<lparr>resourcePath := ''dev/$1'', dynamic := True,
        methods := [default_method_config\<lparr>method_type := GET, format := [''HEX'']\<rparr>]\<rparr>"
  let ?r = "default_resource_config\<lparr>resourcePath := ''dev/x'',
        methods := [default_method_config\<lparr>method_type := GET, format := [''HEX'']\<rparr>]\<rparr>"
  have "generate_resource \<lparr>templateId = ''t'', templateArgs = [''x'']\<rparr> ?it = Inr ?r"
    by code_simp
  moreover from generated_resource [OF this] have "\<not> dynamic ?r" by simp
  moreover have "dynamic ?it" by simp
  ultimately show ?thesis by (simp only: Let_def simp_thms)
qed

end
