(* ===== verification/ConfigParse.thy ===== *)
theory ConfigParse
  imports Templates
begin

text \<open>
  The constructors of \<open>src/Config.cpp\<close> that read the configuration from JSON. The JSON library
  (nlohmann) is not part of the sources: the calls made on a \<open>nlohmann::json\<close> value are the fields of
  \<open>json_api\<close>, an argument of every definition here.
\<close>

section \<open>The JSON calls\<close>

record 'j json_api =
  j_contains :: "'j \<Rightarrow> string \<Rightarrow> bool"
  j_at :: "'j \<Rightarrow> string \<Rightarrow> 'j"
  j_is_object :: "'j \<Rightarrow> bool"
  j_is_array :: "'j \<Rightarrow> bool"
  j_is_string :: "'j \<Rightarrow> bool"
  j_is_boolean :: "'j \<Rightarrow> bool"
  j_is_number :: "'j \<Rightarrow> bool"
  j_elements :: "'j \<Rightarrow> 'j list"
  j_string :: "'j \<Rightarrow> string"
  j_boolean :: "'j \<Rightarrow> bool"
  j_unsigned :: "'j \<Rightarrow> u32"

text \<open>\<open>_json.contains(name) && _json[name].is_...()\<close>\<close>

definition has :: "'j json_api \<Rightarrow> ('j json_api \<Rightarrow> 'j \<Rightarrow> bool) \<Rightarrow> 'j \<Rightarrow> string \<Rightarrow> bool" where
  "has J is_kind json name \<longleftrightarrow> j_contains J json name \<and> is_kind J (j_at J json name)"

definition getString :: "'j json_api \<Rightarrow> 'j \<Rightarrow> string \<Rightarrow> string \<Rightarrow> int \<times> string" where
  "getString J json name outStr =
     (if has J j_is_string json name then (1, j_string J (j_at J json name)) else (0, outStr))"

text \<open>\<open>if(... is_boolean()) this->member = _json[name];\<close>\<close>

definition getBool :: "'j json_api \<Rightarrow> 'j \<Rightarrow> string \<Rightarrow> bool \<Rightarrow> bool" where
  "getBool J json name d =
     (if has J j_is_boolean json name then j_boolean J (j_at J json name) else d)"

definition getUnsigned :: "'j json_api \<Rightarrow> 'j \<Rightarrow> string \<Rightarrow> u32 \<Rightarrow> u32" where
  "getUnsigned J json name d =
     (if has J j_is_number json name then j_unsigned J (j_at J json name) else d)"

section \<open>The constructors\<close>

definition unknown_protocol :: "string \<Rightarrow> failure" where
  "unknown_protocol p = RuntimeError
     (''ERROR: Endpoint transport protocol '' @ [CHR 0x22] @ p @ [CHR 0x22] @ '' not recognized!'')"

definition parse_transport :: "string \<Rightarrow> EndpointTransport res" where
  "parse_transport p =
     (if p = ''udp'' then Inr UDP
      else if p = ''dtls'' then Inr DTLS
      else if p = ''tcp'' then Inr TCP
      else if p = ''tls'' then Inr TLS
      else Inl (unknown_protocol p))"

definition parse_EndpointConfig :: "'j json_api \<Rightarrow> 'j \<Rightarrow> EndpointConfig res" where
  "parse_EndpointConfig J json =
     (let d = default_endpoint_config;
          e = d\<lparr>address := snd (getString J json ''address'' (address d)),
                port := snd (getString J json ''port'' (port d)),
                logDir := snd (getString J json ''logDir'' (logDir d)),
                globalLogFile := snd (getString J json ''globalLogFile'' (globalLogFile d))\<rparr>;
          (found, proto) = getString J json ''protocol'' []
      in ebind (if found \<noteq> 0 then parse_transport proto else Inr (transport e)) (\<lambda>t.
         let e1 = e\<lparr>transport := t\<rparr>
         in if has J j_is_object json ''security''
            then let sec = j_at J json ''security'';
                     s = security e1
                 in Inr (e1\<lparr>security := s\<lparr>key := snd (getString J sec ''key'' (key s)),
                       cert := snd (getString J sec ''cert'' (cert s)),
                       ca := snd (getString J sec ''ca'' (ca s))\<rparr>\<rparr>)
            else Inr e1))"

definition bad_format :: failure where
  "bad_format = RuntimeError ''ERROR: Resource method format is of incorrect type''"

definition parse_format :: "'j json_api \<Rightarrow> 'j \<Rightarrow> string list res" where
  "parse_format J json =
     (if j_contains J json ''format'' then
        let f = j_at J json ''format''
        in if j_is_string J f then Inr [j_string J f]
           else if j_is_array J f then
             emap (\<lambda>e. if j_is_string J e then Inr (j_string J e) else Inl bad_format) (j_elements J f)
           else Inl bad_format
      else Inr [])"

definition cmd_needs_one_format :: failure where
  "cmd_needs_one_format = RuntimeError
     ''ERROR: cmd can only be used on a resource method with a single formatter selected.''"

definition parse_ResourceMethodConfig ::
  "'j json_api \<Rightarrow> 'j \<Rightarrow> ResourceMethodType \<Rightarrow> ResourceMethodConfig res" where
  "parse_ResourceMethodConfig J json ty =
     (let d = default_method_config
      in ebind (parse_format J json) (\<lambda>fmts.
         ebind (if has J j_is_string json ''cmd''
                then if length fmts \<noteq> 1 then Inl cmd_needs_one_format
                     else Inr (j_string J (j_at J json ''cmd''))
                else Inr (cmd d)) (\<lambda>c.
           Inr (d\<lparr>method_type := ty, format := fmts,
             printValue := getBool J json ''print'' (printValue d),
             logValue := getBool J json ''log'' (logValue d),
             store := getBool J json ''store'' (store d),
             cmd := c,
             cmdStdin := getBool J json ''cmdstdin'' (cmdStdin d),
             cmdTimeout := getUnsigned J json ''cmdtimeout'' (cmdTimeout d),
             cmdLogInput := getBool J json ''cmdloginput'' (cmdLogInput d)\<rparr>))))"

text \<open>\<open>if(_json["methods"].contains(name)) this->methods.push_back(...)\<close>\<close>

definition add_method ::
  "'j json_api \<Rightarrow> 'j \<Rightarrow> string \<Rightarrow> ResourceMethodType \<Rightarrow> ResourceMethodConfig list \<Rightarrow>
   ResourceMethodConfig list res" where
  "add_method J jm name ty ms =
     (if j_contains J jm name
      then ebind (parse_ResourceMethodConfig J (j_at J jm name) ty) (\<lambda>m. Inr (ms @ [m]))
      else Inr ms)"

definition no_resource_path :: failure where
  "no_resource_path = RuntimeError ''ERROR: Resource does not include resource path!''"

definition no_methods :: failure where
  "no_methods = RuntimeError ''ERROR: Resource does not include any methods!''"

definition parse_ResourceConfig :: "'j json_api \<Rightarrow> 'j \<Rightarrow> ResourceConfig res" where
  "parse_ResourceConfig J json =
     (let d = default_resource_config;
          (found, path) = getString J json ''path'' (resourcePath d)
      in if found = 0 then Inl no_resource_path
         else let r = d\<lparr>resourcePath := path,
                resourceName := snd (getString J json ''name'' (resourceName d)),
                initialValue := snd (getString J json ''value'' (initialValue d)),
                logFile := snd (getString J json ''logfile'' (logFile d)),
                dataFile := snd (getString J json ''datafile'' (dataFile d)),
                observable := getBool J json ''observable'' (observable d),
                dynamic := getBool J json ''dynamic'' (dynamic d),
                maxAge := getUnsigned J json ''maxage'' (maxAge d)\<rparr>
              in if has J j_is_object json ''methods''
                 then let jm = j_at J json ''methods''
                      in ebind (add_method J jm ''GET'' GET []) (\<lambda>ms.
                         ebind (add_method J jm ''POST'' POST ms) (\<lambda>ms.
                         ebind (add_method J jm ''PUT'' PUT ms) (\<lambda>ms.
                           Inr (r\<lparr>methods := ms\<rparr>))))
                 else Inl no_methods)"

definition parse_TemplateInstance :: "'j json_api \<Rightarrow> 'j \<Rightarrow> TemplateInstance res" where
  "parse_TemplateInstance J json =
     (let (found, ident) = getString J json ''template'' []
      in if found = 0
         then Inl (RuntimeError ''ERROR: Template instance does not include template identifier!'')
         else if has J j_is_array json ''template-args''
         then ebind (emap (\<lambda>e. if j_is_string J e then Inr (j_string J e)
                     else Inl (RuntimeError ''ERROR: Template instance argument is not a string!''))
                   (j_elements J (j_at J json ''template-args'')))
                (\<lambda>args. Inr \<lparr>templateId = ident, templateArgs = args\<rparr>)
         else Inl (RuntimeError ''ERROR: Template instance does not include arguemnts!''))"

definition parse_TemplateConfig :: "'j json_api \<Rightarrow> 'j \<Rightarrow> TemplateConfig res" where
  "parse_TemplateConfig J json =
     (let (found, ident) = getString J json ''ident'' []
      in if found = 0
         then Inl (RuntimeError ''ERROR: Template config does not include identifier!'')
         else let name = snd (getString J json ''name'' [])
              in if has J j_is_array json ''resources''
                 then ebind (emap (\<lambda>e. if j_is_object J e then parse_ResourceConfig J e
                        else Inl (RuntimeError ''ERROR: Template resource config item is not an object!''))
                      (j_elements J (j_at J json ''resources'')))
                    (\<lambda>rs. Inr \<lparr>templateName = name, templateIdent = ident, template_resources = rs,
                       template_args = []\<rparr>)
                 else Inl (RuntimeError ''ERROR: Template config does not contain resources!''))"

text \<open>The loop over the template instances at the end of \<open>Config::Config\<close>.\<close>

fun expand_instances ::
  "TemplateConfig list \<Rightarrow> TemplateInstance list \<Rightarrow> ResourceConfig list \<Rightarrow> ResourceConfig list res" where
  "expand_instances templates [] resources = Inr resources"
| "expand_instances templates (it # its) resources =
     (case find (\<lambda>t. templateIdent t = templateId it) templates of
        Some t \<Rightarrow> ebind (GenerateResources t resources it) (expand_instances templates its)
      | None \<Rightarrow> Inl (RuntimeError
          (''Could not find desired template identifier: '' @ templateId it)))"

definition parse_array :: "'j json_api \<Rightarrow> ('j json_api \<Rightarrow> 'j \<Rightarrow> 'a res) \<Rightarrow> 'j \<Rightarrow> string \<Rightarrow> 'a list res" where
  "parse_array J parse config name =
     (if has J j_is_array config name then emap (parse J) (j_elements J (j_at J config name))
      else Inr [])"

definition build_Config :: "'j json_api \<Rightarrow> 'j \<Rightarrow> Config res" where
  "build_Config J config =
     ebind (if has J j_is_object config ''endpoint''
            then parse_EndpointConfig J (j_at J config ''endpoint'')
            else Inr default_endpoint_config) (\<lambda>endpoint.
     ebind (parse_array J parse_ResourceConfig config ''resources'') (\<lambda>resources.
     ebind (parse_array J parse_TemplateConfig config ''templates'') (\<lambda>templates.
     ebind (parse_array J parse_TemplateInstance config ''template-instances'') (\<lambda>instances.
     ebind (expand_instances templates instances resources) (\<lambda>all.
       Inr \<lparr>config_endpoint = endpoint, config_resources = all\<rparr>)))))"

text \<open>
  \<open>Config::Config(path)\<close>: \<open>read\<close> is the text of the file, if it can be opened; \<open>parse\<close> is the
  library's parser.
\<close>

definition load_Config ::
  "'j json_api \<Rightarrow> (string \<Rightarrow> 'j res) \<Rightarrow> (string \<Rightarrow> string option) \<Rightarrow> string \<Rightarrow> Config res" where
  "load_Config J parse read path =
     (case read path of
        None \<Rightarrow> Inl (RuntimeError (''Could not open config file '' @ [CHR 0x27] @ path @ [CHR 0x27] @
          '' for reading!''))
      | Some contents \<Rightarrow> ebind (parse contents) (build_Config J))"

section \<open>What a loaded configuration guarantees\<close>

named_theorems parse_defs \<open>definitions of the JSON constructors\<close>

declare parse_ResourceMethodConfig_def [parse_defs] add_method_def [parse_defs]
  parse_ResourceConfig_def [parse_defs] parse_TemplateConfig_def [parse_defs]

lemma parse_method_ok:
  "parse_ResourceMethodConfig J json ty = Inr m \<Longrightarrow> ty \<in> {GET, POST, PUT} \<Longrightarrow>
   method_config_ok m \<and> method_type m = ty"
  by (auto simp: parse_defs Let_def res_simps method_config_ok_def default_method_config_def
      split: if_splits)

lemma add_method_ok:
  assumes "add_method J jm name ty ms = Inr ms'" and "ty \<in> {GET, POST, PUT}"
    and "list_all method_config_ok ms"
  shows "list_all method_config_ok ms' \<and>
    (map method_type ms' = map method_type ms \<or> map method_type ms' = map method_type ms @ [ty])"
  using assms parse_method_ok [of J "j_at J jm name" ty]
  by (auto simp: add_method_def res_simps split: if_splits)

lemma parse_resource_ok:
  assumes "parse_ResourceConfig J json = Inr r"
  shows "resource_config_ok r"
proof -
  obtain jm ms1 ms2 where
    m: "add_method J jm ''GET'' GET [] = Inr ms1" "add_method J jm ''POST'' POST ms1 = Inr ms2"
      "add_method J jm ''PUT'' PUT ms2 = Inr (methods r)"
    using assms
    by (auto simp: parse_ResourceConfig_def Let_def res_simps split: prod.splits if_splits)
  note ok1 = add_method_ok [OF m(1)] and ok2 = add_method_ok [OF m(2)]
    and ok3 = add_method_ok [OF m(3)]
  show ?thesis
    using ok1 ok2 ok3 by (auto simp: resource_config_ok_def)
qed

lemma parse_template_ok:
  assumes "parse_TemplateConfig J json = Inr t"
  shows "list_all resource_config_ok (template_resources t)"
proof -
  obtain es where "emap (\<lambda>e. if j_is_object J e then parse_ResourceConfig J e
      else Inl (RuntimeError ''ERROR: Template resource config item is not an object!'')) es =
      Inr (template_resources t)"
    using assms
    by (auto simp: parse_TemplateConfig_def Let_def res_simps split: prod.splits if_splits)
  then show ?thesis
    by (auto simp: list_all_iff parse_resource_ok dest!: emap_set split: if_splits)
qed

lemma parse_array_set:
  "parse_array J parse config name = Inr xs \<Longrightarrow> x \<in> set xs \<Longrightarrow> \<exists>e. parse J e = Inr x"
  by (auto simp: parse_array_def dest: emap_set split: if_splits)

lemma expand_instances_ok:
  assumes "expand_instances templates instances resources = Inr rs"
    and "list_all resource_config_ok resources"
    and "\<And>t. t \<in> set templates \<Longrightarrow> list_all resource_config_ok (template_resources t)"
  shows "list_all resource_config_ok rs"
  using assms(1,2)
proof (induction instances arbitrary: resources)
  case (Cons it its)
  then obtain t rs1 where t: "find (\<lambda>t. templateIdent t = templateId it) templates = Some t"
      "GenerateResources t resources it = Inr rs1" "expand_instances templates its rs1 = Inr rs"
    by (auto simp: res_simps split: option.splits)
  have "t \<in> set templates" using t(1) by (auto simp: find_Some_iff)
  then have "list_all resource_config_ok rs1"
    using GenerateResources_ok [OF t(2) Cons.prems(2)] assms(3) by blast
  with t(3) show ?case by (rule Cons.IH)
qed simp

lemma build_Config_ok:
  assumes "build_Config J json = Inr c"
  shows "list_all resource_config_ok (config_resources c)"
proof -
  obtain resources templates instances where
    b: "parse_array J parse_ResourceConfig json ''resources'' = Inr resources"
      "parse_array J parse_TemplateConfig json ''templates'' = Inr templates"
      "expand_instances templates instances resources = Inr (config_resources c)"
    using assms by (auto simp: build_Config_def res_simps)
  have "list_all resource_config_ok resources"
    using parse_array_set [OF b(1)] parse_resource_ok by (fastforce simp: list_all_iff)
  moreover have "list_all resource_config_ok (template_resources t)" if "t \<in> set templates" for t
    using parse_array_set [OF b(2) that] parse_template_ok by fastforce
  ultimately show ?thesis using expand_instances_ok [OF b(3)] by blast
qed

text \<open>Expansion keeps the listed resources and adds those of the instances behind them.\<close>

lemma expand_instances_prefix:
  "expand_instances templates instances resources = Inr rs \<Longrightarrow>
   \<exists>gen. rs = resources @ gen \<and> list_all (\<lambda>r. \<not> dynamic r) gen"
proof (induction instances arbitrary: resources)
  case (Cons it its)
  then obtain t rs1 where t: "GenerateResources t resources it = Inr rs1"
      "expand_instances templates its rs1 = Inr rs"
    by (auto simp: res_simps split: option.splits)
  obtain gen1 where g1: "rs1 = resources @ gen1" "list_all (\<lambda>r. \<not> dynamic r) gen1"
    using t(1) generate_resource_keeps(4)
    by (fastforce simp: GenerateResources_def res_simps list_all_iff dest: emap_set)
  with Cons.IH [OF t(2)] show ?case by auto
qed simp

section \<open>JSON values for the examples\<close>

datatype jval =
    JObject "(string \<times> jval) list" | JArray "jval list" | JString string | JBoolean bool
  | JNumber nat | JNull

definition jval_api :: "jval json_api" where
  "jval_api = \<lparr>
     j_contains = (\<lambda>j k. case j of JObject kvs \<Rightarrow> map_of kvs k \<noteq> None | _ \<Rightarrow> False),
     j_at = (\<lambda>j k. case j of
         JObject kvs \<Rightarrow> (case map_of kvs k of Some v \<Rightarrow> v | None \<Rightarrow> JNull) | _ \<Rightarrow> JNull),
     j_is_object = (\<lambda>j. case j of JObject _ \<Rightarrow> True | _ \<Rightarrow> False),
     j_is_array = (\<lambda>j. case j of JArray _ \<Rightarrow> True | _ \<Rightarrow> False),
     j_is_string = (\<lambda>j. case j of JString _ \<Rightarrow> True | _ \<Rightarrow> False),
     j_is_boolean = (\<lambda>j. case j of JBoolean _ \<Rightarrow> True | _ \<Rightarrow> False),
     j_is_number = (\<lambda>j. case j of JNumber _ \<Rightarrow> True | _ \<Rightarrow> False),
     j_elements = (\<lambda>j. case j of JArray js \<Rightarrow> js | _ \<Rightarrow> []),
     j_string = (\<lambda>j. case j of JString s \<Rightarrow> s | _ \<Rightarrow> []),
     j_boolean = (\<lambda>j. case j of JBoolean b \<Rightarrow> b | _ \<Rightarrow> False),
     j_unsigned = (\<lambda>j. case j of JNumber n \<Rightarrow> word_of_nat n | _ \<Rightarrow> 0)\<rparr>"

text \<open>A stored resource with two methods, and a template with one instance.\<close>

definition example_json :: jval where
  "example_json = JObject [
     (''resources'', JArray [JObject [
        (''path'', JString ''lamp''), (''value'', JString ''off''), (''maxage'', JNumber 60),
        (''methods'', JObject [
           (''PUT'', JObject [(''format'', JString ''STRING''), (''store'', JBoolean True)]),
           (''GET'', JObject [(''format'', JArray [JString ''STRING''])])])]]),
     (''templates'', JArray [JObject [
        (''ident'', JString ''sensor''),
        (''resources'', JArray [JObject [
           (''path'', JString ''sensor/$1''),
           (''methods'', JObject [(''POST'', JObject [(''format'', JString ''$2''),
              (''cmd'', JString ''notify $1'')])])]])]]),
     (''template-instances'', JArray [JObject [
        (''template'', JString ''sensor''),
        (''template-args'', JArray [JString ''door'', JString ''HEX''])]])]"

definition example_methods :: "ResourceMethodConfig list \<times> ResourceMethodConfig list" where
  "example_methods =
     ([default_method_config\<lparr>method_type := GET, format := [''STRING'']\<rparr>,
       default_method_config\<lparr>method_type := PUT, format := [''STRING''], store := True\<rparr>],
      [default_method_config\<lparr>method_type := POST, format := [''HEX''], cmd := ''notify door''\<rparr>])"

definition example_config :: Config where
  "example_config = \<lparr>config_endpoint = default_endpoint_config, config_resources =
     [default_resource_config\<lparr>resourcePath := ''lamp'', initialValue := ''off'', maxAge := 60,
        methods := fst example_methods\<rparr>,
      default_resource_config\<lparr>resourcePath := ''sensor/door'', methods := snd example_methods\<rparr>]\<rparr>"

lemma example_json_config: "build_Config jval_api example_json = Inr example_config"
  by code_simp

section \<open>Properties\<close>

text \<open>C15: every resource of a configuration that loads, whether listed or generated from a template,
  has only GET, POST and PUT methods, each at most once and in that order, and runs a command only
  behind exactly one formatter; whatever the JSON document is.\<close>

theorem loaded_config_ok:
  assumes "load_Config J parse read path = Inr c"
  shows "list_all resource_config_ok (config_resources c)"
  using assms build_Config_ok by (auto simp: load_Config_def res_simps split: option.splits)

theorem loaded_config_ok_witness:
  "load_Config jval_api (\<lambda>_. Inr example_json) (\<lambda>_. Some []) ''config.json'' = Inr example_config \<and>
   list_all resource_config_ok (config_resources example_config)"
proof -
  have "load_Config jval_api (\<lambda>_. Inr example_json) (\<lambda>_. Some []) ''config.json'' =
      Inr example_config"
    by (simp add: load_Config_def example_json_config)
  then show ?thesis using loaded_config_ok by blast
qed

text \<open>C35: expanding the template instances keeps the listed resources, in front and unchanged, and
  adds for each instance, in order, the resources of the first template with its identifier.\<close>

theorem expansion_keeps_listed:
  assumes "expand_instances templates instances resources = Inr rs"
  shows "\<exists>gens. rs = resources @ concat gens \<and>
    list_all2 (\<lambda>it gen. \<exists>t. find (\<lambda>t. templateIdent t = templateId it) templates = Some t \<and>
      list_all2 (\<lambda>rc r. generate_resource it rc = Inr r) (template_resources t) gen) instances gens"
  using assms
proof (induction instances arbitrary: resources)
  case (Cons it its)
  then obtain t gen where t: "find (\<lambda>t. templateIdent t = templateId it) templates = Some t"
      "emap (generate_resource it) (template_resources t) = Inr gen"
      "expand_instances templates its (resources @ gen) = Inr rs"
    by (auto simp: res_simps GenerateResources_def split: option.splits)
  from Cons.IH [OF t(3)] obtain gens where
    g: "rs = (resources @ gen) @ concat gens" "list_all2 (\<lambda>it gen. \<exists>t.
      find (\<lambda>t. templateIdent t = templateId it) templates = Some t \<and>
      list_all2 (\<lambda>rc r. generate_resource it rc = Inr r) (template_resources t) gen) its gens"
    by blast
  then show ?case using t(1,2) by (intro exI [of _ "gen # gens"]) (auto simp: emap_Inr_iff)
qed auto

theorem expansion_keeps_listed_witness:
  "\<exists>gens. [default_resource_config, default_resource_config\<lparr>resourcePath := ''a/b''\<rparr>] =
      [default_resource_config] @ concat gens \<and>
    list_all2 (\<lambda>it gen. \<exists>t. find (\<lambda>t. templateIdent t = templateId it)
        [\<lparr>templateName = [], templateIdent = ''t'',
          template_resources = [default_resource_config\<lparr>resourcePath := ''a/$1''\<rparr>],
          template_args = []\<rparr>] = Some t \<and>
      list_all2 (\<lambda>rc r. generate_resource it rc = Inr r) (template_resources t) gen)
      [\<lparr>templateId = ''t'', templateArgs = [''b'']\<rparr>] gens"
  by (rule expansion_keeps_listed) code_simp

end
