(* ===== verification/Blockwise.thy ===== *)
theory Blockwise
  imports CxxStd
begin

text \<open>
  Block-wise request bodies: \<open>Resource::sessionGetData\<close> (\<open>src/Resource.cpp\<close>), which gathers the
  blocks of a large request in a buffer that hangs on a cache entry of libcoap until the last block
  arrives.
\<close>

section \<open>The cache and the buffers\<close>

text \<open>
  The cache of libcoap is not part of the sources: \<open>'c\<close> is its state, \<open>'q\<close> the session and request
  that select an entry, \<open>'e\<close> an entry, and its calls are the fields of \<open>cache_api\<close>. The application
  data of an entry is a pointer, here the number of a buffer.
\<close>

record ('c, 'q, 'e) cache_api =
  cache_get_by_pdu :: "'c \<Rightarrow> 'q \<Rightarrow> 'e option"
  new_cache_entry :: "'c \<Rightarrow> 'q \<Rightarrow> 'e option \<times> 'c"
  get_app_data :: "'c \<Rightarrow> 'e \<Rightarrow> nat option"
  set_app_data :: "'c \<Rightarrow> 'e \<Rightarrow> nat option \<Rightarrow> 'c"

text \<open>The \<open>std::vector<std::byte>\<close> objects made with \<open>new\<close>, by number.\<close>

record heap =
  buffers :: "nat \<Rightarrow> bytes option"
  next_buffer :: nat

definition new_buffer :: "heap \<Rightarrow> nat \<times> heap" where
  "new_buffer h = (next_buffer h,
     h\<lparr>buffers := (buffers h)(next_buffer h \<mapsto> []), next_buffer := next_buffer h + 1\<rparr>)"

definition read_buffer :: "heap \<Rightarrow> nat \<Rightarrow> bytes res" where
  "read_buffer h p = (case buffers h p of
     None \<Rightarrow> Inl (Undefined ''use of a deleted buffer'') | Some v \<Rightarrow> Inr v)"

definition write_buffer :: "heap \<Rightarrow> nat \<Rightarrow> bytes \<Rightarrow> heap res" where
  "write_buffer h p v = ebind (read_buffer h p) (\<lambda>_. Inr (h\<lparr>buffers := (buffers h)(p \<mapsto> v)\<rparr>))"

definition delete_buffer :: "heap \<Rightarrow> nat \<Rightarrow> heap res" where
  "delete_buffer h p = ebind (read_buffer h p) (\<lambda>_. Inr (h\<lparr>buffers := (buffers h)(p := None)\<rparr>))"

record 'c block_state =
  bs_cache :: 'c
  bs_heap :: heap

text \<open>What \<open>coap_get_data_large\<close> reports of a request: its result, and the data with its place.\<close>

record large_data =
  ld_ok :: bool
  ld_size :: size_t
  ld_offset :: size_t
  ld_total :: size_t
  ld_data :: bytes

text \<open>\<open>vector::resize\<close> (new elements are zero) and \<open>std::copy\<close> to a position of the buffer.\<close>

definition resize :: "bytes \<Rightarrow> nat \<Rightarrow> bytes" where
  "resize v n = take n v @ replicate (n - length v) 0"

definition copy_at :: "bytes \<Rightarrow> nat \<Rightarrow> bytes \<Rightarrow> bytes res" where
  "copy_at v off d =
     (if off + length d \<le> length v then Inr (take off v @ d @ drop (off + length d) v)
      else Inl (Undefined ''write past the end of the block buffer''))"

text \<open>The bytes \<open>data\<close> to \<open>data + size\<close> of the request.\<close>

definition request_bytes :: "large_data \<Rightarrow> bytes res" where
  "request_bytes ld =
     (if unat (ld_size ld) \<le> length (ld_data ld) then Inr (take (unat (ld_size ld)) (ld_data ld))
      else Inl (Undefined ''read past the end of the request data''))"

section \<open>\<open>Resource::sessionGetData\<close>\<close>

text \<open>
  The part after the cache entry is known: store the block, and hand the buffer over if this was
  the last one. The result is the return value, the data and the new state. (The null checks after
  \<open>new\<close> never apply: \<open>new\<close> does not return null.)
\<close>

definition store_block ::
  "('c, 'q, 'e) cache_api \<Rightarrow> 'e \<Rightarrow> large_data \<Rightarrow> 'c block_state \<Rightarrow> 'c block_state option res" where
  "store_block A e ld s =
     (if ld_size ld \<noteq> 0 then
        (case get_app_data A (bs_cache s) e of
           None \<Rightarrow> Inr None
         | Some p \<Rightarrow>
             ebind (read_buffer (bs_heap s) p) (\<lambda>v.
             ebind (request_bytes ld) (\<lambda>d.
             ebind (copy_at (resize v (unat (ld_total ld))) (unat (ld_offset ld)) d) (\<lambda>v'.
             ebind (write_buffer (bs_heap s) p v') (\<lambda>h. Inr (Some (s\<lparr>bs_heap := h\<rparr>)))))))
      else Inr (Some s))"

definition finish_block ::
  "('c, 'q, 'e) cache_api \<Rightarrow> 'e \<Rightarrow> large_data \<Rightarrow> bytes \<Rightarrow> 'c block_state \<Rightarrow>
   (int \<times> bytes \<times> 'c block_state) res" where
  "finish_block A e ld dataOut s =
     (if ld_offset ld + ld_size ld = ld_total ld then
        let s1 = s\<lparr>bs_cache := set_app_data A (bs_cache s) e None\<rparr>
        in (case get_app_data A (bs_cache s) e of
              None \<Rightarrow> Inr (-1, [], s1)
            | Some p \<Rightarrow>
                ebind (read_buffer (bs_heap s1) p) (\<lambda>v.
                ebind (delete_buffer (bs_heap s1) p) (\<lambda>h. Inr (1, v, s1\<lparr>bs_heap := h\<rparr>))))
      else Inr (0, dataOut, s))"

definition sessionGetData ::
  "('c, 'q, 'e) cache_api \<Rightarrow> 'q \<Rightarrow> large_data \<Rightarrow> bytes \<Rightarrow> 'c block_state \<Rightarrow>
   (int \<times> bytes \<times> 'c block_state) res" where
  "sessionGetData A q ld dataOut s =
     (let gather = (\<lambda>e s. ebind (store_block A e ld s) (\<lambda>r. case r of
                      None \<Rightarrow> Inr (-1, dataOut, s)
                    | Some s' \<Rightarrow> finish_block A e ld dataOut s'));
          fresh = (\<lambda>e c. let (p, h) = new_buffer (bs_heap s)
                      in s\<lparr>bs_cache := set_app_data A c e (Some p), bs_heap := h\<rparr>)
      in if ld_ok ld \<and> ld_size ld \<noteq> ld_total ld then
           (case cache_get_by_pdu A (bs_cache s) q of
              None \<Rightarrow>
                if ld_offset ld \<noteq> 0 then Inr (-1, dataOut, s)
                else (case new_cache_entry A (bs_cache s) q of
                        (None, c) \<Rightarrow> Inr (-1, dataOut, s\<lparr>bs_cache := c\<rparr>)
                      | (Some e, c) \<Rightarrow> gather e (fresh e c))
            | Some e \<Rightarrow>
                if ld_offset ld = 0 then
                  (case get_app_data A (bs_cache s) e of
                     Some p \<Rightarrow>
                       ebind (write_buffer (bs_heap s) p []) (\<lambda>h. gather e (s\<lparr>bs_heap := h\<rparr>))
                   | None \<Rightarrow> gather e (fresh e (bs_cache s)))
                else gather e s)
         else ebind (request_bytes ld) (\<lambda>d. Inr (1, d, s)))"

section \<open>Reassembly\<close>

text \<open>
  The documented behaviour of the cache the code relies on: a created entry is found again for the
  same session and request, application data is what was set last, and setting it does not change
  which entry is found.
\<close>

definition cache_laws :: "('c, 'q, 'e) cache_api \<Rightarrow> bool" where
  "cache_laws A \<longleftrightarrow>
     (\<forall>c q e c'. new_cache_entry A c q = (Some e, c') \<longrightarrow> cache_get_by_pdu A c' q = Some e) \<and>
     (\<forall>c e p. get_app_data A (set_app_data A c e p) e = p) \<and>
     (\<forall>c e p q. cache_get_by_pdu A (set_app_data A c e p) q = cache_get_by_pdu A c q)"

text \<open>
  A body sent as consecutive blocks: each with its bytes and the total size announced with it. The
  total of a block before the last exceeds what has arrived, that of the last is the size of the
  body (libcoap announces either the known size or one byte more than arrived so far).
\<close>

fun blocks_ok :: "nat \<Rightarrow> (bytes \<times> nat) list \<Rightarrow> bool" where
  "blocks_ok off [] = False"
| "blocks_ok off [(d, t)] = (d \<noteq> [] \<and> off + length d = t \<and> t < 2 ^ 64)"
| "blocks_ok off ((d, t) # b # bs) =
     (d \<noteq> [] \<and> off + length d < t \<and> t < 2 ^ 64 \<and> blocks_ok (off + length d) (b # bs))"

definition block :: "nat \<Rightarrow> bytes \<times> nat \<Rightarrow> large_data" where
  "block off b = \<lparr>ld_ok = True, ld_size = word_of_nat (length (fst b)),
     ld_offset = word_of_nat off, ld_total = word_of_nat (snd b), ld_data = fst b\<rparr>"

text \<open>The calls of \<open>sessionGetData\<close> for the blocks of one body, with their results.\<close>

fun feed_blocks ::
  "('c, 'q, 'e) cache_api \<Rightarrow> 'q \<Rightarrow> nat \<Rightarrow> (bytes \<times> nat) list \<Rightarrow> 'c block_state \<Rightarrow>
   ((int \<times> bytes) list \<times> 'c block_state) res" where
  "feed_blocks A q off [] s = Inr ([], s)"
| "feed_blocks A q off (b # bs) s =
     ebind (sessionGetData A q (block off b) [] s) (\<lambda>(ret, out, s').
     ebind (feed_blocks A q (off + length (fst b)) bs s') (\<lambda>(rs, s'').
       Inr ((ret, out) # rs, s'')))"

lemma resize_length [simp]: "length (resize v n) = n"
  by (simp add: resize_def)

lemma take_resize: "k \<le> n \<Longrightarrow> k \<le> length v \<Longrightarrow> take k (resize v n) = take k v"
  by (simp add: resize_def)

lemma copy_at_ok:
  assumes "off + length d \<le> length v"
  shows "\<exists>v'. copy_at v off d = Inr v' \<and> length v' = length v \<and>
    take (off + length d) v' = take off v @ d"
  using assms by (simp add: copy_at_def)

lemma blocks_ok_bounds:
  "blocks_ok off ((d, t) # bs) \<Longrightarrow> off + length d \<le> t \<and> t < 2 ^ 64 \<and> d \<noteq> [] \<and>
    (bs \<noteq> [] \<longrightarrow> off + length d < t)"
  by (cases bs) auto

lemma unat_small: "n < 2 ^ 64 \<Longrightarrow> unat (word_of_nat n :: size_t) = n"
  by (simp add: unat_of_nat)

lemma word_eq_small:
  "m < 2 ^ 64 \<Longrightarrow> n < 2 ^ 64 \<Longrightarrow> (word_of_nat m :: size_t) = word_of_nat n \<longleftrightarrow> m = n"
  by (metis unat_small)

lemma block_fields:
  assumes "blocks_ok off (b # bs)"
  shows "unat (ld_size (block off b)) = length (fst b)" "unat (ld_offset (block off b)) = off"
    "unat (ld_total (block off b)) = snd b" "ld_size (block off b) \<noteq> 0"
    "ld_offset (block off b) = 0 \<longleftrightarrow> off = 0"
    "request_bytes (block off b) = Inr (fst b)"
    "ld_offset (block off b) + ld_size (block off b) = ld_total (block off b) \<longleftrightarrow> bs = []"
    "0 < off \<or> bs \<noteq> [] \<Longrightarrow> ld_size (block off b) \<noteq> ld_total (block off b)"
proof -
  obtain d t where b: "b = (d, t)" by fastforce
  have bd: "off + length d \<le> t" "t < 2 ^ 64" "d \<noteq> []" "bs \<noteq> [] \<longrightarrow> off + length d < t"
    using blocks_ok_bounds assms by (auto simp: b)
  then have small: "length d < 2 ^ 64" "off < 2 ^ 64" "off + length d < 2 ^ 64" by auto
  show "unat (ld_size (block off b)) = length (fst b)"
    "unat (ld_offset (block off b)) = off" "unat (ld_total (block off b)) = snd b"
    using small bd by (simp_all add: block_def b unat_small)
  show "ld_size (block off b) \<noteq> 0"
    using word_eq_small [of "length d" 0] small bd by (simp add: block_def b)
  show "ld_offset (block off b) = 0 \<longleftrightarrow> off = 0"
    using word_eq_small [of off 0] small by (simp add: block_def b)
  show "request_bytes (block off b) = Inr (fst b)"
    using small by (simp add: request_bytes_def block_def b unat_small)
  have last: "bs = [] \<Longrightarrow> off + length d = t" using assms by (simp add: b)
  have "ld_offset (block off b) + ld_size (block off b) = word_of_nat (off + length d)"
    by (simp add: block_def b)
  then show "ld_offset (block off b) + ld_size (block off b) = ld_total (block off b) \<longleftrightarrow> bs = []"
    using word_eq_small [OF small(3) bd(2)] bd(4) last by (auto simp: block_def b)
  show "ld_size (block off b) \<noteq> ld_total (block off b)" if "0 < off \<or> bs \<noteq> []"
    using word_eq_small [OF small(1) bd(2)] that bd by (auto simp: block_def b)
qed


text \<open>
  Between blocks: the entry of the request points to a buffer that starts with what has arrived.
\<close>

definition gathering ::
  "('c, 'q, 'e) cache_api \<Rightarrow> 'q \<Rightarrow> 'e \<Rightarrow> nat \<Rightarrow> bytes \<Rightarrow> 'c block_state \<Rightarrow> bool" where
  "gathering A q e p pre s \<longleftrightarrow>
     cache_get_by_pdu A (bs_cache s) q = Some e \<and> get_app_data A (bs_cache s) e = Some p \<and>
     (\<exists>v. buffers (bs_heap s) p = Some v \<and> take (length pre) v = pre \<and> length pre \<le> length v)"

definition only_buffer :: "nat \<Rightarrow> heap \<Rightarrow> heap \<Rightarrow> bool" where
  "only_buffer p h h' \<longleftrightarrow>
     next_buffer h' = next_buffer h \<and> (\<forall>k. k \<noteq> p \<longrightarrow> buffers h' k = buffers h k)"

lemma only_buffer_trans: "only_buffer p h h' \<Longrightarrow> only_buffer p h' h'' \<Longrightarrow> only_buffer p h h''"
  by (simp add: only_buffer_def)

lemma store_block_gathering:
  assumes g: "gathering A q e p pre s" and ok: "blocks_ok (length pre) (b # bs)"
  shows "\<exists>s'. store_block A e (block (length pre) b) s = Inr (Some s') \<and>
    gathering A q e p (pre @ fst b) s' \<and> only_buffer p (bs_heap s) (bs_heap s') \<and>
    (bs = [] \<longrightarrow> buffers (bs_heap s') p = Some (pre @ fst b))"
proof -
  obtain v where v: "buffers (bs_heap s) p = Some v" "take (length pre) v = pre"
      "length pre \<le> length v" and app: "get_app_data A (bs_cache s) e = Some p"
    using g by (auto simp: gathering_def)
  have le: "length pre + length (fst b) \<le> snd b" "bs = [] \<Longrightarrow> length pre + length (fst b) = snd b"
    using blocks_ok_bounds [of "length pre" "fst b" "snd b" bs] ok by (cases b; simp)+
  obtain v' where v': "copy_at (resize v (snd b)) (length pre) (fst b) = Inr v'"
      "length v' = snd b" "take (length pre + length (fst b)) v' = pre @ fst b"
    using copy_at_ok [of "length pre" "fst b" "resize v (snd b)"] le v
    by (auto simp: take_resize)
  define s' where "s' = s\<lparr>bs_heap := (bs_heap s)\<lparr>buffers := (buffers (bs_heap s))(p \<mapsto> v')\<rparr>\<rparr>"
  have "store_block A e (block (length pre) b) s = Inr (Some s')"
    using v(1) v'(1) app block_fields [OF ok]
    by (simp add: store_block_def read_buffer_def write_buffer_def s'_def)
  moreover have "gathering A q e p (pre @ fst b) s'"
    using g v' le(1) by (simp add: gathering_def s'_def)
  moreover have "buffers (bs_heap s') p = Some (pre @ fst b)" if "bs = []"
    using v'(2,3) le(2) [OF that] by (simp add: s'_def)
  ultimately show ?thesis
    by (auto simp: only_buffer_def s'_def)
qed

text \<open>One call for a block that is not the first: more to come, or the whole body.\<close>

lemma gather_middle:
  assumes g: "gathering A q e p pre s" and ok: "blocks_ok (length pre) (b # bs)"
    and later: "pre \<noteq> []" "bs \<noteq> []"
  shows "\<exists>s'. sessionGetData A q (block (length pre) b) [] s = Inr (0, [], s') \<and>
    gathering A q e p (pre @ fst b) s' \<and> only_buffer p (bs_heap s) (bs_heap s')"
proof -
  obtain s' where s': "store_block A e (block (length pre) b) s = Inr (Some s')"
      "gathering A q e p (pre @ fst b) s'" "only_buffer p (bs_heap s) (bs_heap s')"
    using store_block_gathering [OF g ok] by blast
  have "ld_ok (block (length pre) b)" by (simp add: block_def)
  then have "sessionGetData A q (block (length pre) b) [] s = Inr (0, [], s')"
    using g s'(1) block_fields [OF ok] later
    by (simp add: sessionGetData_def finish_block_def gathering_def)
  with s' show ?thesis by blast
qed

lemma gather_last:
  assumes laws: "cache_laws A" and g: "gathering A q e p pre s"
    and ok: "blocks_ok (length pre) [b]" and later: "pre \<noteq> []"
  shows "\<exists>s'. sessionGetData A q (block (length pre) b) [] s = Inr (1, pre @ fst b, s') \<and>
    only_buffer p (bs_heap s) (bs_heap s') \<and> buffers (bs_heap s') p = None \<and>
    cache_get_by_pdu A (bs_cache s') q = Some e \<and> get_app_data A (bs_cache s') e = None"
proof -
  obtain s1 where s1: "store_block A e (block (length pre) b) s = Inr (Some s1)"
      "gathering A q e p (pre @ fst b) s1" "only_buffer p (bs_heap s) (bs_heap s1)"
      "buffers (bs_heap s1) p = Some (pre @ fst b)"
    using store_block_gathering [OF g ok] by blast
  define s' where "s' = s1\<lparr>bs_cache := set_app_data A (bs_cache s1) e None,
      bs_heap := (bs_heap s1)\<lparr>buffers := (buffers (bs_heap s1))(p := None)\<rparr>\<rparr>"
  have "ld_ok (block (length pre) b)" by (simp add: block_def)
  then have "sessionGetData A q (block (length pre) b) [] s = Inr (1, pre @ fst b, s')"
    using g s1(1,2,4) block_fields [OF ok] later
    by (simp add: sessionGetData_def finish_block_def gathering_def read_buffer_def
        delete_buffer_def s'_def Let_def)
  moreover have "only_buffer p (bs_heap s) (bs_heap s')" "buffers (bs_heap s') p = None"
    using s1(3) by (auto simp: s'_def only_buffer_def)
  moreover have "cache_get_by_pdu A (bs_cache s') q = Some e"
    "get_app_data A (bs_cache s') e = None"
    using laws s1(2) by (auto simp: s'_def cache_laws_def gathering_def)
  ultimately show ?thesis by blast
qed

lemma feed_later_blocks:
  assumes "cache_laws A" and "gathering A q e p pre s" and "blocks_ok (length pre) bs" and "pre \<noteq> []"
  shows "\<exists>s'. feed_blocks A q (length pre) bs s =
      Inr (replicate (length bs - 1) (0, []) @ [(1, pre @ concat (map fst bs))], s') \<and>
    only_buffer p (bs_heap s) (bs_heap s') \<and> buffers (bs_heap s') p = None \<and>
    cache_get_by_pdu A (bs_cache s') q = Some e \<and> get_app_data A (bs_cache s') e = None"
  using assms(2-4)
proof (induction bs arbitrary: pre s)
  case (Cons b bs)
  show ?case
  proof (cases bs)
    case Nil
    have "blocks_ok (length pre) [b]" using Cons.prems(2) by (simp only: Nil)
    from gather_last [OF assms(1) Cons.prems(1) this Cons.prems(3)] obtain s' where
      s': "sessionGetData A q (block (length pre) b) [] s = Inr (1, pre @ fst b, s')"
        "only_buffer p (bs_heap s) (bs_heap s')" "buffers (bs_heap s') p = None"
        "cache_get_by_pdu A (bs_cache s') q = Some e" "get_app_data A (bs_cache s') e = None"
      by blast
    then show ?thesis by (intro exI [of _ s']) (simp add: Nil)
  next
    case (Cons b' bs')
    obtain s1 where s1: "sessionGetData A q (block (length pre) b) [] s = Inr (0, [], s1)"
        "gathering A q e p (pre @ fst b) s1" "only_buffer p (bs_heap s) (bs_heap s1)"
      using gather_middle [OF Cons.prems(1,2,3)] Cons by blast
    have "blocks_ok (length (pre @ fst b)) bs"
      using Cons.prems(2) Cons by (cases b) simp
    from Cons.IH [OF s1(2) this] Cons.prems(3) obtain s2 where
      s2: "feed_blocks A q (length (pre @ fst b)) bs s1 =
          Inr (replicate (length bs - 1) (0, []) @ [(1, (pre @ fst b) @ concat (map fst bs))], s2)"
        "only_buffer p (bs_heap s1) (bs_heap s2)" "buffers (bs_heap s2) p = None"
        "cache_get_by_pdu A (bs_cache s2) q = Some e" "get_app_data A (bs_cache s2) e = None"
      by auto
    have "replicate (length (b # bs) - 1) (0 :: int, [] :: bytes) =
        (0, []) # replicate (length bs - 1) (0, [])"
      using Cons by simp
    then show ?thesis
      using s1(1) s2 only_buffer_trans [OF s1(3) s2(2)] by (intro exI [of _ s2]) simp
  qed
qed simp


text \<open>
  The first block: a new entry, or an entry left by an earlier body, whose buffer is gone or (after
  an unfinished body) is cleared.
\<close>

definition heap_ok :: "heap \<Rightarrow> bool" where
  "heap_ok h \<longleftrightarrow> (\<forall>k. next_buffer h \<le> k \<longrightarrow> buffers h k = None)"

definition can_start :: "('c, 'q, 'e) cache_api \<Rightarrow> 'q \<Rightarrow> 'c block_state \<Rightarrow> bool" where
  "can_start A q s \<longleftrightarrow> heap_ok (bs_heap s) \<and>
     (case cache_get_by_pdu A (bs_cache s) q of
        None \<Rightarrow> fst (new_cache_entry A (bs_cache s) q) \<noteq> None
      | Some e \<Rightarrow>
          (case get_app_data A (bs_cache s) e of
             None \<Rightarrow> True | Some p \<Rightarrow> buffers (bs_heap s) p \<noteq> None))"

lemma first_entry:
  assumes laws: "cache_laws A" and start: "can_start A q s" and ok: "blocks_ok 0 (b # bs)"
    and more: "bs \<noteq> []"
  shows "\<exists>e p s0. gathering A q e p [] s0 \<and>
    (\<forall>k. k \<noteq> p \<longrightarrow> buffers (bs_heap s0) k = buffers (bs_heap s) k) \<and>
    sessionGetData A q (block 0 b) [] s =
      ebind (store_block A e (block 0 b) s0) (\<lambda>r. case r of
          None \<Rightarrow> Inr (-1, [], s0)
        | Some s' \<Rightarrow> finish_block A e (block 0 b) [] s')"
proof -
  let ?p = "next_buffer (bs_heap s)"
  define fresh where "fresh e c = s\<lparr>bs_cache := set_app_data A c e (Some ?p),
      bs_heap := snd (new_buffer (bs_heap s))\<rparr>" for e c
  have ld: "ld_ok (block 0 b)" "ld_size (block 0 b) \<noteq> ld_total (block 0 b)" "ld_offset (block 0 b) = 0"
    using block_fields [OF ok] more by (simp_all add: block_def)
  have fresh: "gathering A q e ?p [] (fresh e c) \<and>
      (\<forall>k. k \<noteq> ?p \<longrightarrow> buffers (bs_heap (fresh e c)) k = buffers (bs_heap s) k)"
    if "cache_get_by_pdu A c q = Some e" for e c
    using laws that by (simp add: gathering_def fresh_def cache_laws_def new_buffer_def)
  consider (new) e c where "cache_get_by_pdu A (bs_cache s) q = None"
      "new_cache_entry A (bs_cache s) q = (Some e, c)" "cache_get_by_pdu A c q = Some e"
    | (bare) e where "cache_get_by_pdu A (bs_cache s) q = Some e"
      "get_app_data A (bs_cache s) e = None"
    | (left) e p v where "cache_get_by_pdu A (bs_cache s) q = Some e"
      "get_app_data A (bs_cache s) e = Some p" "buffers (bs_heap s) p = Some v"
  proof (cases "cache_get_by_pdu A (bs_cache s) q")
    case None
    then obtain e c where "new_cache_entry A (bs_cache s) q = (Some e, c)"
      using start by (cases "new_cache_entry A (bs_cache s) q") (auto simp: can_start_def)
    then show ?thesis using new None laws by (simp add: cache_laws_def)
  next
    case (Some e)
    then show ?thesis
      using bare left start by (cases "get_app_data A (bs_cache s) e") (auto simp: can_start_def)
  qed
  then show ?thesis
  proof cases
    case new
    with ld fresh [OF new(3)] show ?thesis
      by (intro exI [of _ e] exI [of _ ?p] exI [of _ "fresh e c"])
        (simp add: sessionGetData_def fresh_def new_buffer_def cong del: option.case_cong_weak)
  next
    case bare
    with ld fresh [OF bare(1)] show ?thesis
      by (intro exI [of _ e] exI [of _ ?p] exI [of _ "fresh e (bs_cache s)"])
        (simp add: sessionGetData_def fresh_def new_buffer_def cong del: option.case_cong_weak)
  next
    case left
    let ?s0 = "s\<lparr>bs_heap := (bs_heap s)\<lparr>buffers := (buffers (bs_heap s))(p \<mapsto> [])\<rparr>\<rparr>"
    from left ld show ?thesis
      by (intro exI [of _ e] exI [of _ p] exI [of _ ?s0])
        (simp add: sessionGetData_def write_buffer_def read_buffer_def gathering_def)
  qed
qed

lemma gather_first:
  assumes laws: "cache_laws A" and start: "can_start A q s" and ok: "blocks_ok 0 (b # bs)"
    and more: "bs \<noteq> []"
  shows "\<exists>e p s'. sessionGetData A q (block 0 b) [] s = Inr (0, [], s') \<and>
    gathering A q e p (fst b) s' \<and>
    (\<forall>k. k \<noteq> p \<longrightarrow> buffers (bs_heap s') k = buffers (bs_heap s) k)"
proof -
  obtain e p s0 where s0: "gathering A q e p [] s0"
      "\<forall>k. k \<noteq> p \<longrightarrow> buffers (bs_heap s0) k = buffers (bs_heap s) k"
      "sessionGetData A q (block 0 b) [] s =
        ebind (store_block A e (block 0 b) s0) (\<lambda>r. case r of
            None \<Rightarrow> Inr (-1, [], s0)
          | Some s' \<Rightarrow> finish_block A e (block 0 b) [] s')"
    using first_entry [OF assms] by blast
  from store_block_gathering [OF s0(1), of b bs] ok obtain s' where
    s': "store_block A e (block 0 b) s0 = Inr (Some s')" "gathering A q e p (fst b) s'"
      "only_buffer p (bs_heap s0) (bs_heap s')"
    by auto
  have "sessionGetData A q (block 0 b) [] s = Inr (0, [], s')"
    using s0(3) s'(1) block_fields [OF ok] more by (simp add: finish_block_def)
  moreover have "\<forall>k. k \<noteq> p \<longrightarrow> buffers (bs_heap s') k = buffers (bs_heap s) k"
    using s0(2) s'(3) by (simp add: only_buffer_def)
  ultimately show ?thesis using s'(2) by blast
qed

lemma feed_all_blocks:
  assumes laws: "cache_laws A" and start: "can_start A q s" and ok: "blocks_ok 0 bs"
    and two: "2 \<le> length bs"
  shows "\<exists>s'. feed_blocks A q 0 bs s =
      Inr (replicate (length bs - 1) (0, []) @ [(1, concat (map fst bs))], s') \<and>
    (\<forall>k. buffers (bs_heap s') k = buffers (bs_heap s) k \<or> buffers (bs_heap s') k = None) \<and>
    (\<exists>e. cache_get_by_pdu A (bs_cache s') q = Some e \<and> get_app_data A (bs_cache s') e = None)"
proof -
  obtain b bs1 where bs: "bs = b # bs1" "bs1 \<noteq> []"
    using two by (cases bs) (auto simp: Suc_le_eq)
  have ok': "blocks_ok (length (fst b)) bs1" "fst b \<noteq> []"
    using ok bs by (cases b; cases bs1; simp)+
  obtain e p s1 where s1: "sessionGetData A q (block 0 b) [] s = Inr (0, [], s1)"
      "gathering A q e p (fst b) s1"
      "\<forall>k. k \<noteq> p \<longrightarrow> buffers (bs_heap s1) k = buffers (bs_heap s) k"
    using gather_first [OF laws start, of b bs1] ok bs by auto
  obtain s2 where s2: "feed_blocks A q (length (fst b)) bs1 s1 =
        Inr (replicate (length bs1 - 1) (0, []) @ [(1, fst b @ concat (map fst bs1))], s2)"
      "only_buffer p (bs_heap s1) (bs_heap s2)" "buffers (bs_heap s2) p = None"
      "cache_get_by_pdu A (bs_cache s2) q = Some e" "get_app_data A (bs_cache s2) e = None"
    using feed_later_blocks [OF laws s1(2) ok'] by blast
  have "\<forall>k. buffers (bs_heap s2) k = buffers (bs_heap s) k \<or> buffers (bs_heap s2) k = None"
    using s1(3) s2(2,3) unfolding only_buffer_def by metis
  moreover have "replicate (length bs - 1) (0 :: int, [] :: bytes) =
      (0, []) # replicate (length bs1 - 1) (0, [])"
    using bs by (cases bs1) auto
  ultimately show ?thesis
    using s1(1) s2(1,4,5) bs by (intro exI [of _ s2]) auto
qed

text \<open>The bodies that are not gathered: one that came whole, and one that lost its first block.\<close>

lemma sessionGetData_single:
  assumes "\<not> ld_ok ld \<or> ld_size ld = ld_total ld" and "unat (ld_size ld) \<le> length (ld_data ld)"
  shows "sessionGetData A q ld out s = Inr (1, take (unat (ld_size ld)) (ld_data ld), s)"
  using assms by (auto simp: sessionGetData_def request_bytes_def)

lemma sessionGetData_lost_first:
  assumes "ld_ok ld" "ld_size ld \<noteq> ld_total ld" "ld_offset ld \<noteq> 0"
    and "cache_get_by_pdu A (bs_cache s) q = None"
  shows "sessionGetData A q ld out s = Inr (-1, out, s)"
  using assms by (simp add: sessionGetData_def)

section \<open>Memory safety over any requests\<close>

text \<open>
  What is documented of application data: setting it changes that entry alone, a new entry has none
  and leaves the others.
\<close>

definition cache_frame :: "('c, 'q, 'e) cache_api \<Rightarrow> bool" where
  "cache_frame A \<longleftrightarrow>
     (\<forall>c e p e'. get_app_data A (set_app_data A c e p) e' = (if e' = e then p else get_app_data A c e')) \<and>
     (\<forall>c q e c'. new_cache_entry A c q = (Some e, c') \<longrightarrow>
        get_app_data A c' e = None \<and> (\<forall>e'. e' \<noteq> e \<longrightarrow> get_app_data A c' e' = get_app_data A c e')) \<and>
     (\<forall>c q c'. new_cache_entry A c q = (None, c') \<longrightarrow> get_app_data A c' = get_app_data A c)"

text \<open>\<open>_cache_free_app_data\<close>, which libcoap calls with the application data of an expired entry.\<close>

definition cache_free_app_data :: "nat option \<Rightarrow> heap \<Rightarrow> heap res" where
  "cache_free_app_data data h = (case data of None \<Rightarrow> Inr h | Some p \<Rightarrow> delete_buffer h p)"

definition expire_entry :: "('c, 'q, 'e) cache_api \<Rightarrow> 'e \<Rightarrow> 'c block_state \<Rightarrow> 'c block_state res" where
  "expire_entry A e s =
     ebind (cache_free_app_data (get_app_data A (bs_cache s) e) (bs_heap s)) (\<lambda>h.
       Inr (s\<lparr>bs_cache := set_app_data A (bs_cache s) e None, bs_heap := h\<rparr>))"

text \<open>Every entry with application data owns a live buffer of its own.\<close>

definition owns :: "('e \<Rightarrow> nat option) \<Rightarrow> heap \<Rightarrow> bool" where
  "owns app h \<longleftrightarrow> heap_ok h \<and> (\<forall>e p. app e = Some p \<longrightarrow> buffers h p \<noteq> None) \<and>
     (\<forall>e e' p. app e = Some p \<longrightarrow> app e' = Some p \<longrightarrow> e = e')"

definition blocks_inv :: "('c, 'q, 'e) cache_api \<Rightarrow> 'c block_state \<Rightarrow> bool" where
  "blocks_inv A s \<longleftrightarrow> owns (get_app_data A (bs_cache s)) (bs_heap s)"

text \<open>
  What \<open>coap_get_data_large\<close> guarantees of its results: the data has \<open>size\<close> bytes, and the block lies
  inside the total.
\<close>

definition large_data_ok :: "large_data \<Rightarrow> bool" where
  "large_data_ok ld \<longleftrightarrow> unat (ld_size ld) \<le> length (ld_data ld) \<and>
     (ld_ok ld \<longrightarrow> unat (ld_offset ld) + unat (ld_size ld) \<le> unat (ld_total ld))"

lemma owns_new:
  assumes "owns app h" and "app' = app(e := Some (next_buffer h))"
  shows "owns app' (snd (new_buffer h))"
proof -
  have "app x \<noteq> Some (next_buffer h)" for x
    using assms(1) unfolding owns_def heap_ok_def by (metis order_refl)
  then show ?thesis using assms by (auto simp: owns_def heap_ok_def new_buffer_def)
qed

lemma owns_write:
  assumes "owns app h" and "app e = Some p"
  shows "owns app (h\<lparr>buffers := (buffers h)(p \<mapsto> v)\<rparr>)"
proof -
  have "buffers h p \<noteq> None" using assms unfolding owns_def by blast
  then show ?thesis using assms(1) by (auto simp: owns_def heap_ok_def)
qed

lemma owns_delete:
  "owns app h \<Longrightarrow> app e = Some p \<Longrightarrow>
   owns (app(e := None)) (h\<lparr>buffers := (buffers h)(p := None)\<rparr>)"
  by (auto simp: owns_def heap_ok_def)

lemma owns_None: "owns app h \<Longrightarrow> owns (app(e := None)) h"
  by (auto simp: owns_def)

lemma owns_read:
  assumes "owns app h" and "app e = Some p"
  shows "\<exists>v. read_buffer h p = Inr v"
proof -
  have "buffers h p \<noteq> None" using assms unfolding owns_def by blast
  then show ?thesis by (auto simp: read_buffer_def)
qed

lemma app_data_set:
  "cache_frame A \<Longrightarrow> get_app_data A (set_app_data A c e p) = (get_app_data A c)(e := p)"
  by (auto simp: cache_frame_def)

lemma store_block_safe:
  assumes "cache_frame A" and inv: "blocks_inv A s" and ld: "large_data_ok ld" "ld_ok ld"
  shows "\<exists>r. store_block A e ld s = Inr r \<and>
    (\<forall>s'. r = Some s' \<longrightarrow> blocks_inv A s' \<and> bs_cache s' = bs_cache s)"
proof (cases "ld_size ld \<noteq> 0 \<and> get_app_data A (bs_cache s) e \<noteq> None")
  case True
  then obtain p where p: "get_app_data A (bs_cache s) e = Some p" by auto
  obtain v where v: "read_buffer (bs_heap s) p = Inr v"
    using owns_read inv p by (fastforce simp: blocks_inv_def)
  have d: "request_bytes ld = Inr (take (unat (ld_size ld)) (ld_data ld))"
    using ld by (simp add: request_bytes_def large_data_ok_def)
  obtain v' where v': "copy_at (resize v (unat (ld_total ld))) (unat (ld_offset ld))
      (take (unat (ld_size ld)) (ld_data ld)) = Inr v'"
    using ld by (auto simp: copy_at_def large_data_ok_def)
  show ?thesis
    using True p v d v' inv
      owns_write [where app = "get_app_data A (bs_cache s)" and h = "bs_heap s" and p = p and e = e]
    by (auto simp: store_block_def write_buffer_def blocks_inv_def)
next
  case False
  then show ?thesis using inv by (auto simp: store_block_def)
qed

lemma finish_block_safe:
  assumes "cache_frame A" and inv: "blocks_inv A s"
  shows "\<exists>ret out s'. finish_block A e ld d s = Inr (ret, out, s') \<and> blocks_inv A s'"
proof (cases "get_app_data A (bs_cache s) e")
  case None
  then show ?thesis
    using inv owns_None [of "get_app_data A (bs_cache s)" "bs_heap s" e]
    by (auto simp: finish_block_def Let_def blocks_inv_def app_data_set [OF assms(1)])
next
  case (Some p)
  obtain v where v: "read_buffer (bs_heap s) p = Inr v"
    using owns_read inv Some by (fastforce simp: blocks_inv_def)
  show ?thesis
    using Some v inv owns_delete [of "get_app_data A (bs_cache s)" "bs_heap s" e p]
    by (auto simp: finish_block_def delete_buffer_def blocks_inv_def app_data_set [OF assms(1)])
qed

text \<open>Storing the block and handing over, for an entry in a good state.\<close>

lemma gather_safe:
  assumes "cache_frame A" and "blocks_inv A s" and "large_data_ok ld" "ld_ok ld"
  shows "\<exists>ret out s'. ebind (store_block A e ld s) (\<lambda>r. case r of
      None \<Rightarrow> Inr (-1, d, s) | Some s' \<Rightarrow> finish_block A e ld d s') = Inr (ret, out, s') \<and>
    blocks_inv A s'"
proof -
  obtain r where r: "store_block A e ld s = Inr r"
      "\<forall>s'. r = Some s' \<longrightarrow> blocks_inv A s' \<and> bs_cache s' = bs_cache s"
    using store_block_safe [OF assms] by blast
  show ?thesis
  proof (cases r)
    case None
    then show ?thesis using r(1) assms(2) by simp
  next
    case (Some s1)
    then show ?thesis using r finish_block_safe [OF assms(1), of s1 e ld d] by simp
  qed
qed

lemma sessionGetData_safe:
  assumes "cache_frame A" and inv: "blocks_inv A s" and ld: "large_data_ok ld"
  shows "\<exists>ret out' s'. sessionGetData A q ld out s = Inr (ret, out', s') \<and> blocks_inv A s'"
proof (cases "ld_ok ld \<and> ld_size ld \<noteq> ld_total ld")
  case False
  then show ?thesis
    using inv ld by (auto simp: sessionGetData_def request_bytes_def large_data_ok_def)
next
  case True
  note gather = gather_safe [OF assms(1) _ ld, where d = out]
  define fresh where "fresh e c = s\<lparr>bs_cache := set_app_data A c e (Some (next_buffer (bs_heap s))),
      bs_heap := snd (new_buffer (bs_heap s))\<rparr>" for e c
  have new: "fst (new_buffer (bs_heap s)) = next_buffer (bs_heap s)" by (simp add: new_buffer_def)
  have fresh: "blocks_inv A (fresh e c)"
    if "owns ((get_app_data A c)(e := None)) (bs_heap s)" for e c
    using owns_new [OF that, of _ e] by (simp add: blocks_inv_def fresh_def app_data_set [OF assms(1)])
  show ?thesis
  proof (cases "cache_get_by_pdu A (bs_cache s) q")
    case None
    obtain en c where en: "new_cache_entry A (bs_cache s) q = (en, c)" by fastforce
    show ?thesis
    proof (cases "ld_offset ld = 0")
      case zero: True
      show ?thesis
      proof (cases en)
        case en_None: None
        then have "blocks_inv A (s\<lparr>bs_cache := c\<rparr>)"
          using en inv assms(1) by (auto simp: blocks_inv_def cache_frame_def)
        then show ?thesis using None en en_None True zero by (simp add: sessionGetData_def)
      next
        case (Some e)
        have "(get_app_data A c)(e := None) = (get_app_data A (bs_cache s))(e := None)"
          using en Some assms(1) unfolding cache_frame_def by fastforce
        then have "blocks_inv A (fresh e c)"
          using fresh owns_None inv by (metis blocks_inv_def)
        from gather [OF this, of e] show ?thesis
          using None en Some True zero by (simp add: sessionGetData_def split_beta new fresh_def)
      qed
    next
      case False
      then show ?thesis using None True inv by (simp add: sessionGetData_def)
    qed
  next
    case (Some e)
    show ?thesis
    proof (cases "ld_offset ld = 0")
      case zero: True
      show ?thesis
      proof (cases "get_app_data A (bs_cache s) e")
        case app: None
        have "blocks_inv A (fresh e (bs_cache s))"
          by (rule fresh) (use inv owns_None in \<open>auto simp: blocks_inv_def\<close>)
        from gather [OF this, of e] show ?thesis
          using Some app True zero by (simp add: sessionGetData_def split_beta new fresh_def)
      next
        case app: (Some p)
        obtain v where v: "read_buffer (bs_heap s) p = Inr v"
          using owns_read inv app by (fastforce simp: blocks_inv_def)
        have "blocks_inv A (s\<lparr>bs_heap := (bs_heap s)\<lparr>buffers := (buffers (bs_heap s))(p \<mapsto> [])\<rparr>\<rparr>)"
          using inv app by (auto simp: blocks_inv_def intro: owns_write)
        from gather [OF this, of e] show ?thesis
          using Some app v True zero by (simp add: sessionGetData_def write_buffer_def)
      qed
    next
      case False
      then show ?thesis
        using gather [OF inv, of e] Some True by (simp add: sessionGetData_def)
    qed
  qed
qed

lemma expire_entry_safe:
  assumes "cache_frame A" and inv: "blocks_inv A s"
  shows "\<exists>s'. expire_entry A e s = Inr s' \<and> blocks_inv A s'"
proof (cases "get_app_data A (bs_cache s) e")
  case None
  then show ?thesis
    using inv owns_None
    by (auto simp: expire_entry_def cache_free_app_data_def blocks_inv_def app_data_set [OF assms(1)])
next
  case (Some p)
  obtain v where v: "read_buffer (bs_heap s) p = Inr v"
    using owns_read inv Some by (fastforce simp: blocks_inv_def)
  then show ?thesis
    using Some inv owns_delete [of "get_app_data A (bs_cache s)" "bs_heap s" e p]
    by (simp add: expire_entry_def cache_free_app_data_def delete_buffer_def blocks_inv_def
        app_data_set [OF assms(1)])
qed

text \<open>Any history of request bodies and expiring entries.\<close>

datatype ('q, 'e) cache_event = Body 'q large_data | Expire 'e

fun run_events ::
  "('c, 'q, 'e) cache_api \<Rightarrow> ('q, 'e) cache_event list \<Rightarrow> 'c block_state \<Rightarrow> 'c block_state res" where
  "run_events A [] s = Inr s"
| "run_events A (Body q ld # evs) s =
     ebind (sessionGetData A q ld [] s) (\<lambda>(_, _, s'). run_events A evs s')"
| "run_events A (Expire e # evs) s = ebind (expire_entry A e s) (run_events A evs)"

definition events_ok :: "('q, 'e) cache_event list \<Rightarrow> bool" where
  "events_ok evs \<longleftrightarrow> list_all (\<lambda>ev. case ev of Body q ld \<Rightarrow> large_data_ok ld | Expire e \<Rightarrow> True) evs"

lemma run_events_safe:
  "cache_frame A \<Longrightarrow> blocks_inv A s \<Longrightarrow> events_ok evs \<Longrightarrow>
   \<exists>s'. run_events A evs s = Inr s' \<and> blocks_inv A s'"
proof (induction A evs s rule: run_events.induct)
  case (2 A q ld evs s)
  obtain ret out s1 where s1: "sessionGetData A q ld [] s = Inr (ret, out, s1)" "blocks_inv A s1"
    using sessionGetData_safe [OF 2(2,3)] 2(4) by (fastforce simp: events_ok_def)
  then show ?case using 2 by (simp add: events_ok_def)
next
  case (3 A e evs s)
  obtain s1 where s1: "expire_entry A e s = Inr s1" "blocks_inv A s1"
    using expire_entry_safe [OF 3(2,3)] by blast
  then show ?case using 3 by (simp add: events_ok_def)
qed simp

section \<open>A cache for the examples\<close>

text \<open>Entries numbered by request key, created on demand, with their application data.\<close>

type_synonym simple_cache = "(nat \<Rightarrow> bool) \<times> (nat \<Rightarrow> nat option)"

definition simple_cache_api :: "(simple_cache, nat, nat) cache_api" where
  "simple_cache_api = \<lparr>
     cache_get_by_pdu = (\<lambda>c q. if fst c q then Some q else None),
     new_cache_entry = (\<lambda>c q. (Some q, ((fst c)(q := True), (snd c)(q := None)))),
     get_app_data = (\<lambda>c e. snd c e),
     set_app_data = (\<lambda>c e p. (fst c, (snd c)(e := p)))\<rparr>"

lemma simple_cache_laws: "cache_laws simple_cache_api"
  by (simp add: cache_laws_def simple_cache_api_def)

lemma simple_cache_frame: "cache_frame simple_cache_api"
  by (auto simp: cache_frame_def simple_cache_api_def)

definition empty_block_state :: "simple_cache block_state" where
  "empty_block_state = \<lparr>bs_cache = (\<lambda>_. False, \<lambda>_. None),
     bs_heap = \<lparr>buffers = \<lambda>_. None, next_buffer = 0\<rparr>\<rparr>"

lemma simple_cache_inv: "blocks_inv simple_cache_api empty_block_state"
  by (simp add: blocks_inv_def owns_def heap_ok_def simple_cache_api_def empty_block_state_def)

lemma simple_cache_can_start: "can_start simple_cache_api q empty_block_state"
  by (simp add: can_start_def simple_cache_api_def empty_block_state_def heap_ok_def)

section \<open>Properties\<close>

text \<open>C7: a body sent in two or more blocks, with known or unknown total size, is put together, also after
  an earlier body of the same request was abandoned: each block but the last asks for more, the last
  one gives the concatenation of all of them, and the entry and the heap keep no buffer of it.\<close>

theorem blocks_reassembled:
  assumes "cache_laws A" and "can_start A q s" and "blocks_ok 0 bs" and "2 \<le> length bs"
  shows "\<exists>s' e. feed_blocks A q 0 bs s =
      Inr (replicate (length bs - 1) (0, []) @ [(1, concat (map fst bs))], s') \<and>
    dom (buffers (bs_heap s')) \<subseteq> dom (buffers (bs_heap s)) \<and>
    cache_get_by_pdu A (bs_cache s') q = Some e \<and> get_app_data A (bs_cache s') e = None"
proof -
  obtain s' e where "feed_blocks A q 0 bs s =
      Inr (replicate (length bs - 1) (0, []) @ [(1, concat (map fst bs))], s')"
    and same: "\<forall>k. buffers (bs_heap s') k = buffers (bs_heap s) k \<or> buffers (bs_heap s') k = None"
    and "cache_get_by_pdu A (bs_cache s') q = Some e" "get_app_data A (bs_cache s') e = None"
    using feed_all_blocks [OF assms] by blast
  moreover have "dom (buffers (bs_heap s')) \<subseteq> dom (buffers (bs_heap s))"
  proof
    fix k assume "k \<in> dom (buffers (bs_heap s'))"
    then show "k \<in> dom (buffers (bs_heap s))" using same [rule_format, of k] by auto
  qed
  ultimately show ?thesis by blast
qed

text \<open>A state in which a client has gone away after its first block.\<close>

definition abandoned_state :: "simple_cache block_state" where
  "abandoned_state = \<lparr>bs_cache = ((\<lambda>_. False)(5 := True), [5 \<mapsto> 0]),
     bs_heap = \<lparr>buffers = [0 \<mapsto> [9, 9, 9]], next_buffer = 1\<rparr>\<rparr>"

theorem blocks_reassembled_witness:
  "\<exists>s' e. feed_blocks simple_cache_api 5 0 [([1, 2], 3), ([3, 4], 5), ([5], 5)] abandoned_state =
      Inr ([(0, []), (0, []), (1, [1, 2, 3, 4, 5])], s') \<and>
    dom (buffers (bs_heap s')) \<subseteq> dom (buffers (bs_heap abandoned_state)) \<and>
    cache_get_by_pdu simple_cache_api (bs_cache s') 5 = Some e \<and>
    get_app_data simple_cache_api (bs_cache s') e = None"
proof -
  have "can_start simple_cache_api 5 abandoned_state"
    by (simp add: can_start_def simple_cache_api_def abandoned_state_def heap_ok_def)
  from blocks_reassembled [OF simple_cache_laws this, of "[([1, 2], 3), ([3, 4], 5), ([5], 5)]"]
  show ?thesis by (simp del: feed_blocks.simps)
qed

text \<open>C8: whatever bodies arrive, in any order, interleaved over any sessions, repeated, missing blocks
  or abandoned, and whichever cache entries expire in between: no buffer is used after it was
  deleted, deleted twice, or accessed out of bounds.\<close>

theorem blocks_memory_safe:
  assumes "cache_frame A" and "blocks_inv A s" and "events_ok evs"
  shows "\<exists>s'. run_events A evs s = Inr s' \<and> blocks_inv A s'"
  by (rule run_events_safe [OF assms])

theorem blocks_memory_safe_witness:
  "\<exists>s'. run_events simple_cache_api
      [Body 1 (block 0 ([1, 2], 6)), Body 2 (block 0 ([7], 3)), Body 1 (block 0 ([3, 4], 6)), Expire 1,
       Body 1 (block 2 ([5, 6], 6)), Body 2 (block 1 ([8, 9], 3)), Expire 2] empty_block_state = Inr s' \<and>
    blocks_inv simple_cache_api s'"
  by (rule blocks_memory_safe [OF simple_cache_frame simple_cache_inv])
    (simp add: events_ok_def large_data_ok_def block_def)

end
