(* ===== verification/Resources.thy ===== *)
theory Resources
  imports ConfigTypes Formatters
begin

text \<open>
  A resource (\<open>src/Resource.cpp\<close>): its value, its log file and the data file that backs the value.
  The file system, the clock and the calls made to libcoap are the \<open>world\<close> that the operations take
  and return. Diagnostics on the standard error stream are left out.
\<close>

section \<open>The world\<close>

record file_entry =
  file_data :: bytes
  file_time :: int

text \<open>
  Calls made to libcoap about a resource, named by its path: \<open>coap_resource_init\<close>,
  \<open>coap_resource_set_get_observable\<close>, \<open>coap_register_handler\<close>, \<open>coap_add_resource\<close> and
  \<open>coap_resource_notify_observers\<close>; the same for the resource that takes unknown paths; and the
  settings of the context (block mode, ignored cache options, log handler).
\<close>

datatype coap_call =
    ResourceInit string
  | SetObservable string
  | RegisterHandler string ResourceMethodType
  | AddResource string
  | NotifyObservers string
  | UnknownInit ResourceMethodType
  | RegisterUnknown ResourceMethodType
  | AddUnknown
  | SetBlockModeUseLibcoap
  | CacheIgnoreOptions "string list"
  | SetLogHandler

text \<open>
  \<open>can_read\<close>, \<open>can_write\<close> and \<open>can_mkdir\<close> say for a path whether opening it for reading or writing
  and creating it as a directory succeed; \<open>clock\<close> is the time a write stamps on a file (in the
  ticks of \<open>file_time_type\<close>, nanoseconds).
\<close>

record world =
  files :: "string \<Rightarrow> file_entry option"
  clock :: int
  can_read :: "string \<Rightarrow> bool"
  can_write :: "string \<Rightarrow> bool"
  can_mkdir :: "string \<Rightarrow> bool"
  stdout_lines :: "string list"
  coap_calls :: "coap_call list"

definition call :: "coap_call \<Rightarrow> world \<Rightarrow> world" where
  "call c w = w\<lparr>coap_calls := coap_calls w @ [c]\<rparr>"

text \<open>Opening for appending creates a missing file; truncating and writing replaces the contents.\<close>

definition open_append :: "string \<Rightarrow> world \<Rightarrow> world" where
  "open_append p w =
     (if files w p = None
      then w\<lparr>files := (files w)(p \<mapsto> \<lparr>file_data = [], file_time = clock w\<rparr>)\<rparr> else w)"

definition append_file :: "string \<Rightarrow> bytes \<Rightarrow> world \<Rightarrow> world" where
  "append_file p d w = (case files w p of
       None \<Rightarrow> w
     | Some f \<Rightarrow>
         w\<lparr>files := (files w)(p \<mapsto> \<lparr>file_data = file_data f @ d, file_time = clock w\<rparr>)\<rparr>)"

text \<open>
  \<open>std::ofstream file(path, trunc); file.write(data, n);\<close> with a buffer \<open>v\<close>: writing more than the
  buffer holds reads past its end; a file that cannot be opened is not written.
\<close>

definition write_file :: "string \<Rightarrow> bytes \<Rightarrow> nat \<Rightarrow> world \<Rightarrow> world res" where
  "write_file p v n w =
     (if length v < n then Inl (Undefined ''read past the end of the value'')
      else if can_write w p
      then Inr (w\<lparr>files := (files w)(p \<mapsto> \<lparr>file_data = take n v, file_time = clock w\<rparr>)\<rparr>)
      else Inr w)"

definition last_write_time :: "string \<Rightarrow> world \<Rightarrow> int res" where
  "last_write_time p w = (case files w p of
     None \<Rightarrow> Inl (LibraryThrow ''std::filesystem::filesystem_error'') | Some f \<Rightarrow> Inr (file_time f))"

definition exists_file :: "string \<Rightarrow> world \<Rightarrow> bool" where
  "exists_file p w \<longleftrightarrow> files w p \<noteq> None"

section \<open>State\<close>

text \<open>A \<open>ResourceMethod\<close> and its constructor.\<close>

record resource_method =
  m_config :: ResourceMethodConfig
  m_fmts :: "formatter list"

definition new_ResourceMethod :: "ResourceMethodConfig \<Rightarrow> resource_method res" where
  "new_ResourceMethod c =
     ebind (emap createResourceFormatter (format c)) (\<lambda>fs. Inr \<lparr>m_config = c, m_fmts = fs\<rparr>)"

definition getMethodType :: "resource_method \<Rightarrow> ResourceMethodType" where
  "getMethodType m = method_type (m_config m)"

text \<open>\<open>r_logFile\<close> is the path of the log file when it is open.\<close>

record resource =
  r_config :: ResourceConfig
  r_methods :: "resource_method list"
  r_value :: bytes
  r_logFile :: "string option"
  r_dataFilePath :: string
  r_dataFileWriteTime :: int

definition getPath :: "resource \<Rightarrow> string" where
  "getPath r = resourcePath (r_config r)"

definition getMaxAge :: "resource \<Rightarrow> u32" where
  "getMaxAge r = maxAge (r_config r)"

definition getValue :: "resource \<Rightarrow> bytes" where
  "getValue r = r_value r"

section \<open>Construction\<close>

definition slash :: char where
  "slash = CHR ''/''"

text \<open>\<open>std::filesystem::path::parent_path\<close> of a path with a directory part.\<close>

definition parent_path :: "string \<Rightarrow> string" where
  "parent_path p =
     (let dir = dropWhile (\<lambda>c. c = slash) (dropWhile (\<lambda>c. c \<noteq> slash) (rev p))
      in if dir = [] then [slash] else rev dir)"

definition open_log :: "ResourceConfig \<Rightarrow> string \<Rightarrow> world \<Rightarrow> (string \<times> world) res" where
  "open_log cfg dir w =
     (let path = (if dir \<noteq> [] then dir @ [slash] @ logFile cfg else logFile cfg)
      in if slash \<in> set path \<and> \<not> can_mkdir w (parent_path path)
         then Inl (LibraryThrow ''std::filesystem::filesystem_error'')
         else if can_write w path then Inr (path, open_append path w)
         else Inl (RuntimeError (''Failed to open log file `'' @ path @ ''` for resource '' @
           resourcePath cfg)))"

definition no_log_file :: "ResourceConfig \<Rightarrow> failure" where
  "no_log_file cfg = RuntimeError (''Resource method requests logging, but resource '' @
     resourcePath cfg @ '' has no defined log file'')"

text \<open>The loop of \<open>Resource::Resource\<close> over the method configurations.\<close>

fun add_methods ::
  "ResourceConfig \<Rightarrow> string \<Rightarrow> ResourceMethodConfig list \<Rightarrow> resource \<Rightarrow> world \<Rightarrow>
   (resource \<times> world) res" where
  "add_methods cfg dir [] r w = Inr (r, w)"
| "add_methods cfg dir (it # its) r w =
     ebind (new_ResourceMethod it) (\<lambda>m.
       let r1 = r\<lparr>r_methods := r_methods r @ [m]\<rparr>
       in if logValue it \<and> r_logFile r1 = None then
            if logFile cfg \<noteq> [] then
              ebind (open_log cfg dir w) (\<lambda>(path, w').
                add_methods cfg dir its (r1\<lparr>r_logFile := Some path\<rparr>) w')
            else Inl (no_log_file cfg)
          else add_methods cfg dir its r1 w)"

definition new_Resource :: "ResourceConfig \<Rightarrow> string \<Rightarrow> world \<Rightarrow> (resource \<times> world) res" where
  "new_Resource cfg dir w =
     ebind (add_methods cfg dir (methods cfg)
         \<lparr>r_config = cfg, r_methods = [], r_value = [], r_logFile = None, r_dataFilePath = [],
          r_dataFileWriteTime = 0\<rparr> w) (\<lambda>(r, w').
       Inr (if dataFile cfg \<noteq> [] then r\<lparr>r_dataFilePath := dataFile cfg\<rparr> else r, w'))"

section \<open>The value\<close>

definition notify :: "resource \<Rightarrow> world \<Rightarrow> world" where
  "notify r w = (if observable (r_config r) then call (NotifyObservers (getPath r)) w else w)"

text \<open>\<open>Resource::setValue\<close> on bytes: the length written is that of the stored value.\<close>

definition setValue :: "bytes \<Rightarrow> resource \<Rightarrow> world \<Rightarrow> (resource \<times> world) res" where
  "setValue v r w =
     (let r1 = r\<lparr>r_value := v\<rparr>;
          w1 = notify r1 w
      in if r_dataFilePath r1 \<noteq> [] then
           ebind (write_file (r_dataFilePath r1) v (length (r_value r1)) w1) (\<lambda>w2.
           ebind (last_write_time (r_dataFilePath r1) w2) (\<lambda>t.
             Inr (r1\<lparr>r_dataFileWriteTime := t\<rparr>, w2)))
         else Inr (r1, w1))"

definition setValue_string :: "string \<Rightarrow> resource \<Rightarrow> world \<Rightarrow> (resource \<times> world) res" where
  "setValue_string s = setValue (map byte_of_char s)"

text \<open>
  \<open>Resource::valueUpdate\<close>: the vector read into has the size of the file; when the file cannot be
  opened for reading it keeps its zeros.
\<close>

definition valueUpdate :: "resource \<Rightarrow> world \<Rightarrow> resource \<times> world" where
  "valueUpdate r w =
     (if r_dataFilePath r = [] then (r, w)
      else case files w (r_dataFilePath r) of
        None \<Rightarrow> (r, w)
      | Some f \<Rightarrow>
          if file_time f \<le> r_dataFileWriteTime r then (r, w)
          else let fileSize = length (file_data f);
                   data = (if can_read w (r_dataFilePath r) then file_data f
                           else replicate fileSize 0);
                   r1 = r\<lparr>r_value := data\<rparr>;
                   w1 = notify r1 w
               in (r1\<lparr>r_dataFileWriteTime := file_time f\<rparr>, w1))"

section \<open>Attaching to the CoAP context\<close>

text \<open>The loop of \<open>Resource::attach\<close> over the methods; \<open>False\<close> is the early \<open>return 1\<close>.\<close>

fun register_methods :: "string \<Rightarrow> resource_method list \<Rightarrow> world \<Rightarrow> bool \<times> world" where
  "register_methods path [] w = (True, w)"
| "register_methods path (m # ms) w =
     (case getMethodType m of
        GET \<Rightarrow> register_methods path ms (call (RegisterHandler path GET) w)
      | POST \<Rightarrow> register_methods path ms (call (RegisterHandler path POST) w)
      | PUT \<Rightarrow> register_methods path ms (call (RegisterHandler path PUT) w)
      | _ \<Rightarrow> (False, w))"

definition hour_ticks :: int where
  "hour_ticks = 3600 * 10 ^ 9"

definition attach :: "resource \<Rightarrow> world \<Rightarrow> (int \<times> resource \<times> world) res" where
  "attach r w =
     (let path = c_string (getPath r);
          w1 = call (ResourceInit path) w;
          w2 = (if observable (r_config r) then call (SetObservable path) w1 else w1);
          (ok, w3) = register_methods path (r_methods r) w2
      in if \<not> ok then Inr (1, r, w3)
         else let w4 = call (AddResource path) w3
              in if r_dataFilePath r \<noteq> [] \<and> exists_file (r_dataFilePath r) w4 then
                   ebind (last_write_time (r_dataFilePath r) w4) (\<lambda>t.
                     let (r', w') = valueUpdate (r\<lparr>r_dataFileWriteTime := t - hour_ticks\<rparr>) w4
                     in Inr (0, r', w'))
                 else ebind (setValue_string (initialValue (r_config r)) r w4) (\<lambda>(r', w').
                     Inr (0, r', w')))"

definition writeLog :: "resource \<Rightarrow> string \<Rightarrow> world \<Rightarrow> world" where
  "writeLog r s w = (case r_logFile r of
     None \<Rightarrow> w | Some p \<Rightarrow> append_file p (map byte_of_char (s @ [CHR 0x0A])) w)"


section \<open>Properties of construction\<close>

text \<open>
  A constructed resource has one method object per configured method, in order, with the formatters
  the configuration names; and its log file is open exactly when a method asks for logging.
\<close>

definition method_built :: "ResourceMethodConfig \<Rightarrow> resource_method \<Rightarrow> bool" where
  "method_built c m \<longleftrightarrow>
     m_config m = c \<and> list_all2 (\<lambda>f x. createResourceFormatter f = Inr x) (format c) (m_fmts m)"

lemma new_ResourceMethod_built: "new_ResourceMethod c = Inr m \<Longrightarrow> method_built c m"
  by (auto simp: new_ResourceMethod_def method_built_def res_simps emap_Inr_iff)

definition built_by :: "ResourceMethodConfig list \<Rightarrow> resource \<Rightarrow> resource \<Rightarrow> bool" where
  "built_by its r r' \<longleftrightarrow>
     (\<exists>ms. r_methods r' = r_methods r @ ms \<and> list_all2 method_built its ms) \<and>
     (r_logFile r' \<noteq> None \<longleftrightarrow> r_logFile r \<noteq> None \<or> (\<exists>it \<in> set its. logValue it)) \<and>
     r_config r' = r_config r \<and> r_value r' = r_value r \<and> r_dataFilePath r' = r_dataFilePath r"

lemma built_by_Nil: "built_by [] r r"
  by (simp add: built_by_def)

lemma built_by_Cons:
  assumes "method_built it m"
    and "built_by its (r\<lparr>r_methods := r_methods r @ [m], r_logFile := l\<rparr>) r'"
    and "l \<noteq> None \<longleftrightarrow> r_logFile r \<noteq> None \<or> logValue it"
  shows "built_by (it # its) r r'"
  using assms by (auto simp: built_by_def)

lemma add_methods_built: "add_methods cfg dir its r w = Inr (r', w') \<Longrightarrow> built_by its r r'"
proof (induction its arbitrary: r w)
  case Nil
  then show ?case by (simp add: built_by_Nil)
next
  case (Cons it its)
  obtain m where m: "method_built it m" and
    rest: "(let r1 = r\<lparr>r_methods := r_methods r @ [m]\<rparr>
       in if logValue it \<and> r_logFile r1 = None then
            if logFile cfg \<noteq> [] then
              ebind (open_log cfg dir w) (\<lambda>(path, w').
                add_methods cfg dir its (r1\<lparr>r_logFile := Some path\<rparr>) w')
            else Inl (no_log_file cfg)
          else add_methods cfg dir its r1 w) = Inr (r', w')"
    using Cons.prems by (auto simp: res_simps dest: new_ResourceMethod_built)
  show ?case
  proof (cases "logValue it \<and> r_logFile r = None")
    case True
    with rest obtain path w1 where
      "add_methods cfg dir its (r\<lparr>r_methods := r_methods r @ [m], r_logFile := Some path\<rparr>) w1 =
        Inr (r', w')"
      by (auto simp: res_simps Let_def split: if_splits)
    from built_by_Cons [OF m Cons.IH [OF this]] True show ?thesis by simp
  next
    case False
    with rest have "add_methods cfg dir its (r\<lparr>r_methods := r_methods r @ [m]\<rparr>) w = Inr (r', w')"
      by (simp add: Let_def)
    from Cons.IH [OF this] have
      "built_by its (r\<lparr>r_methods := r_methods r @ [m], r_logFile := r_logFile r\<rparr>) r'"
      by simp
    from built_by_Cons [OF m this] False show ?thesis by auto
  qed
qed

lemma new_Resource_result:
  assumes "new_Resource cfg dir w = Inr (r, w')"
  shows "r_config r = cfg" and "list_all2 method_built (methods cfg) (r_methods r)"
    and "r_logFile r \<noteq> None \<longleftrightarrow> (\<exists>it \<in> set (methods cfg). logValue it)"
    and "r_dataFilePath r = dataFile cfg" and "r_value r = []"
proof -
  let ?r0 = "\<lparr>r_config = cfg, r_methods = [], r_value = [], r_logFile = None,
    r_dataFilePath = [], r_dataFileWriteTime = 0\<rparr>"
  obtain r1 where b: "built_by (methods cfg) ?r0 r1" and
    r: "r = (if dataFile cfg \<noteq> [] then r1\<lparr>r_dataFilePath := dataFile cfg\<rparr> else r1)"
    using assms by (auto simp: new_Resource_def res_simps dest!: add_methods_built)
  then show "r_config r = cfg" "list_all2 method_built (methods cfg) (r_methods r)"
    "r_logFile r \<noteq> None \<longleftrightarrow> (\<exists>it \<in> set (methods cfg). logValue it)"
    "r_dataFilePath r = dataFile cfg" "r_value r = []"
    by (simp_all add: built_by_def)
qed

section \<open>The value and its file\<close>

text \<open>
  Value and file agree: the file holds the value and carries the time of the last write seen.
\<close>

definition in_sync :: "resource \<Rightarrow> world \<Rightarrow> bool" where
  "in_sync r w \<longleftrightarrow> r_dataFilePath r = [] \<or>
     files w (r_dataFilePath r) = Some \<lparr>file_data = r_value r, file_time = r_dataFileWriteTime r\<rparr>"

definition can_store :: "resource \<Rightarrow> world \<Rightarrow> bool" where
  "can_store r w \<longleftrightarrow> r_dataFilePath r = [] \<or> can_write w (r_dataFilePath r)"

lemma notify_simps [simp]:
  "files (notify r w) = files w" "clock (notify r w) = clock w" "can_write (notify r w) = can_write w"
  "can_read (notify r w) = can_read w" "stdout_lines (notify r w) = stdout_lines w"
  by (simp_all add: notify_def call_def)

lemma setValue_ok:
  assumes "can_store r w"
  shows "\<exists>r' w'. setValue v r w = Inr (r', w') \<and> r_value r' = v \<and> in_sync r' w' \<and>
    can_store r' w' \<and> r_config r' = r_config r \<and> r_methods r' = r_methods r \<and>
    r_logFile r' = r_logFile r \<and> r_dataFilePath r' = r_dataFilePath r \<and>
    (\<forall>p. p \<noteq> r_dataFilePath r \<longrightarrow> files w' p = files w p) \<and>
    can_write w' = can_write w \<and> stdout_lines w' = stdout_lines w \<and> clock w' = clock w"
  using assms
  by (auto simp: can_store_def in_sync_def setValue_def write_file_def last_write_time_def Let_def)

lemma setValue_unwritable:
  assumes "r_dataFilePath r \<noteq> []" "\<not> can_write w (r_dataFilePath r)"
    and "files w (r_dataFilePath r) = None"
  shows "setValue v r w = Inl (LibraryThrow ''std::filesystem::filesystem_error'')"
  using assms by (simp add: setValue_def write_file_def last_write_time_def Let_def)

lemma valueUpdate_in_sync: "in_sync r w \<Longrightarrow> valueUpdate r w = (r, w)"
  by (auto simp: in_sync_def valueUpdate_def)

lemma valueUpdate_newer:
  assumes "r_dataFilePath r \<noteq> []" and "files w (r_dataFilePath r) = Some f"
    and "r_dataFileWriteTime r < file_time f" and "can_read w (r_dataFilePath r)"
  shows "valueUpdate r w =
    (r\<lparr>r_value := file_data f, r_dataFileWriteTime := file_time f\<rparr>, notify r w)"
  using assms by (cases r) (simp add: valueUpdate_def Let_def notify_def getPath_def)

lemma valueUpdate_not_newer:
  assumes "files w (r_dataFilePath r) = Some f" and "file_time f \<le> r_dataFileWriteTime r"
  shows "valueUpdate r w = (r, w)"
  using assms by (simp add: valueUpdate_def)

text \<open>
  The contract a client of the value uses: a stored value is read back, and the periodic update
  keeps it as long as nobody else writes the file.
\<close>

locale backed_value =
  fixes put :: "bytes \<Rightarrow> 'r \<Rightarrow> 'w \<Rightarrow> ('r \<times> 'w) res"
    and fetch :: "'r \<Rightarrow> bytes"
    and refresh :: "'r \<Rightarrow> 'w \<Rightarrow> 'r \<times> 'w"
    and synced :: "'r \<Rightarrow> 'w \<Rightarrow> bool"
    and writable :: "'r \<Rightarrow> 'w \<Rightarrow> bool"
  assumes put_ok: "writable r w \<Longrightarrow>
      \<exists>r' w'. put v r w = Inr (r', w') \<and> fetch r' = v \<and> synced r' w' \<and> writable r' w'"
    and refresh_synced: "synced r w \<Longrightarrow> refresh r w = (r, w)"
begin

lemma put_fetch: "writable r w \<Longrightarrow> put v r w = Inr (r', w') \<Longrightarrow> fetch r' = v"
  using put_ok [of r w v] by auto

lemma put_refresh_fetch:
  "writable r w \<Longrightarrow> put v r w = Inr (r', w') \<Longrightarrow>
   fetch (fst (((\<lambda>(r, w). refresh r w) ^^ n) (r', w'))) = v"
proof -
  assume "writable r w" "put v r w = Inr (r', w')"
  then have v: "fetch r' = v" and s: "synced r' w'"
    using put_ok [of r w v] by auto
  have "((\<lambda>(r, w). refresh r w) ^^ n) (r', w') = (r', w')"
    by (induction n) (simp_all add: refresh_synced [OF s])
  then show ?thesis using v by simp
qed

lemma put_put:
  assumes "writable r w" "put v r w = Inr (r1, w1)" "put v' r1 w1 = Inr (r2, w2)"
  shows "fetch r2 = v'"
proof -
  have "writable r1 w1" using put_ok [OF assms(1), of v] assms(2) by auto
  then show ?thesis using assms(3) by (rule put_fetch)
qed

end

interpretation stored: backed_value setValue getValue valueUpdate in_sync can_store
proof unfold_locales
  show "\<exists>r' w'. setValue v r w = Inr (r', w') \<and> getValue r' = v \<and> in_sync r' w' \<and> can_store r' w'"
    if "can_store r w" for v r w
    using setValue_ok [OF that, of v] by (auto simp: getValue_def)
  show "valueUpdate r w = (r, w)" if "in_sync r w" for r w
    by (rule valueUpdate_in_sync [OF that])
qed

section \<open>Attaching\<close>

lemma exists_file_call [simp]: "exists_file p (w\<lparr>coap_calls := cs\<rparr>) = exists_file p w"
  by (simp add: exists_file_def)

definition servable :: "resource \<Rightarrow> bool" where
  "servable r \<longleftrightarrow> (\<forall>m \<in> set (r_methods r). getMethodType m \<in> {GET, POST, PUT})"

lemma register_methods_ok:
  "\<forall>m \<in> set ms. getMethodType m \<in> {GET, POST, PUT} \<Longrightarrow>
   register_methods path ms w =
     (True, w\<lparr>coap_calls := coap_calls w @ map (\<lambda>m. RegisterHandler path (getMethodType m)) ms\<rparr>)"
  by (induction ms arbitrary: w) (auto simp: call_def)

lemma register_methods_bad:
  "m \<in> set ms \<Longrightarrow> getMethodType m \<notin> {GET, POST, PUT} \<Longrightarrow> \<not> fst (register_methods path ms w)"
  by (induction ms arbitrary: w) (auto split: ResourceMethodType.splits)

text \<open>The calls of \<open>attach\<close> before the value is set.\<close>

definition attach_calls :: "resource \<Rightarrow> coap_call list" where
  "attach_calls r =
     (let path = c_string (getPath r)
      in [ResourceInit path] @ (if observable (r_config r) then [SetObservable path] else []) @
         map (\<lambda>m. RegisterHandler path (getMethodType m)) (r_methods r) @ [AddResource path])"

definition attached_world :: "resource \<Rightarrow> world \<Rightarrow> world" where
  "attached_world r w = w\<lparr>coap_calls := coap_calls w @ attach_calls r\<rparr>"

lemma attach_servable:
  assumes "servable r"
  shows "attach r w =
    (let w4 = attached_world r w
     in if r_dataFilePath r \<noteq> [] \<and> exists_file (r_dataFilePath r) w then
          ebind (last_write_time (r_dataFilePath r) w4) (\<lambda>t.
            let (r', w') = valueUpdate (r\<lparr>r_dataFileWriteTime := t - hour_ticks\<rparr>) w4
            in Inr (0, r', w'))
        else ebind (setValue_string (initialValue (r_config r)) r w4) (\<lambda>(r', w').
            Inr (0, r', w')))"
  using assms register_methods_ok [of "r_methods r"]
  by (simp add: attach_def servable_def attached_world_def attach_calls_def call_def Let_def)

lemma attach_unservable:
  assumes "\<not> servable r"
  shows "\<exists>w'. attach r w = Inr (1, r, w')"
proof -
  obtain m where "m \<in> set (r_methods r)" "getMethodType m \<notin> {GET, POST, PUT}"
    using assms by (auto simp: servable_def)
  then have "\<not> fst (register_methods path (r_methods r) w2)" for path w2
    by (rule register_methods_bad)
  then show ?thesis by (simp add: attach_def Let_def split_beta)
qed

lemma attach_existing_file:
  assumes "servable r" and "r_dataFilePath r \<noteq> []" and "files w (r_dataFilePath r) = Some f"
    and "can_read w (r_dataFilePath r)"
  shows "\<exists>r' w'. attach r w = Inr (0, r', w') \<and> r_value r' = file_data f \<and> in_sync r' w' \<and>
    files w' = files w"
proof -
  let ?r = "r\<lparr>r_dataFileWriteTime := file_time f - hour_ticks\<rparr>" and ?w = "attached_world r w"
  have "valueUpdate ?r ?w =
      (?r\<lparr>r_value := file_data f, r_dataFileWriteTime := file_time f\<rparr>, notify ?r ?w)"
    by (rule valueUpdate_newer) (use assms in \<open>simp_all add: attached_world_def hour_ticks_def\<close>)
  then show ?thesis
    using assms
    by (simp add: attach_servable exists_file_def last_write_time_def attached_world_def in_sync_def)
qed

lemma attach_no_file:
  assumes "servable r" and "can_store r w"
    and "r_dataFilePath r = [] \<or> files w (r_dataFilePath r) = None"
  shows "\<exists>r' w'. attach r w = Inr (0, r', w') \<and>
    r_value r' = map byte_of_char (initialValue (r_config r)) \<and> in_sync r' w'"
proof -
  have "can_store r (attached_world r w)"
    using assms(2) by (simp add: can_store_def attached_world_def)
  from setValue_ok [OF this, of "map byte_of_char (initialValue (r_config r))"] show ?thesis
    using assms(1,3) by (auto simp: attach_servable setValue_string_def exists_file_def)
qed

text \<open>The value a resource starts with: its file where there is one, else its configured value.\<close>

definition starting_value :: "resource \<Rightarrow> world \<Rightarrow> bytes" where
  "starting_value r w =
     (case files w (r_dataFilePath r) of
        Some f \<Rightarrow> if r_dataFilePath r \<noteq> [] then file_data f
                  else map byte_of_char (initialValue (r_config r))
      | None \<Rightarrow> map byte_of_char (initialValue (r_config r)))"

definition file_accessible :: "resource \<Rightarrow> world \<Rightarrow> bool" where
  "file_accessible r w \<longleftrightarrow>
     r_dataFilePath r = [] \<or> can_write w (r_dataFilePath r) \<and> can_read w (r_dataFilePath r)"

lemma valueUpdate_keeps:
  "valueUpdate r w = (r', w') \<Longrightarrow> r_config r' = r_config r \<and> r_methods r' = r_methods r \<and>
     r_logFile r' = r_logFile r \<and> r_dataFilePath r' = r_dataFilePath r"
  by (auto simp: valueUpdate_def Let_def split: if_splits option.splits)

lemma setValue_keeps:
  "setValue v r w = Inr (r', w') \<Longrightarrow> r_config r' = r_config r \<and> r_methods r' = r_methods r \<and>
     r_logFile r' = r_logFile r \<and> r_dataFilePath r' = r_dataFilePath r"
  by (auto simp: setValue_def Let_def res_simps split: if_splits)

lemma attach_keeps:
  assumes "attach r w = Inr (ret, r', w')"
  shows "r_config r' = r_config r \<and> r_methods r' = r_methods r \<and> r_logFile r' = r_logFile r \<and>
    r_dataFilePath r' = r_dataFilePath r"
proof -
  have "r' = r \<or> (\<exists>t v w1. valueUpdate (r\<lparr>r_dataFileWriteTime := t\<rparr>) w1 = (r', w')) \<or>
      (\<exists>v w1. setValue v r w1 = Inr (r', w'))"
    using assms
    by (auto simp: attach_def Let_def res_simps setValue_string_def split: if_splits prod.splits)
  then show ?thesis using valueUpdate_keeps setValue_keeps by fastforce
qed

lemma attach_result:
  assumes "servable r" and "file_accessible r w"
  shows "\<exists>r' w'. attach r w = Inr (0, r', w') \<and> r_value r' = starting_value r w \<and> in_sync r' w'"
proof (cases "r_dataFilePath r = [] \<or> files w (r_dataFilePath r) = None")
  case True
  then have "can_store r w" using assms(2) by (auto simp: can_store_def file_accessible_def)
  from attach_no_file [OF assms(1) this True] True show ?thesis
    by (auto simp: starting_value_def split: option.splits)
next
  case False
  then obtain f where "files w (r_dataFilePath r) = Some f" "r_dataFilePath r \<noteq> []" by auto
  then show ?thesis
    using attach_existing_file [OF assms(1)] assms(2)
    by (fastforce simp: starting_value_def file_accessible_def)
qed

section \<open>Properties\<close>

text \<open>A resource with a data file, for the examples.\<close>

definition example_resource :: resource where
  "example_resource = \<lparr>r_config = default_resource_config\<lparr>resourcePath := ''lamp'',
       initialValue := ''off'', dataFile := ''lamp.dat'', observable := True\<rparr>,
     r_methods = [\<lparr>m_config = default_method_config\<lparr>method_type := GET\<rparr>, m_fmts = []\<rparr>],
     r_value = [], r_logFile = None, r_dataFilePath = ''lamp.dat'', r_dataFileWriteTime = 0\<rparr>"

definition example_world :: world where
  "example_world = \<lparr>files = Map.empty, clock = 5, can_read = \<lambda>_. True, can_write = \<lambda>_. True,
     can_mkdir = \<lambda>_. True, stdout_lines = [], coap_calls = []\<rparr>"



text \<open>C29: when another program has written the data file since it was last read, the next update takes
  over its contents and tells the observers, once; the update after that changes nothing.\<close>

theorem newer_file_taken_over:
  assumes "r_dataFilePath r \<noteq> []" and "files w (r_dataFilePath r) = Some f"
    and "r_dataFileWriteTime r < file_time f" and "can_read w (r_dataFilePath r)"
  shows "\<exists>r' w'. valueUpdate r w = (r', w') \<and> r_value r' = file_data f \<and> valueUpdate r' w' = (r', w') \<and>
    coap_calls w' = coap_calls w @
      (if observable (r_config r) then [NotifyObservers (getPath r)] else [])"
  by (simp add: valueUpdate_newer [OF assms])
    (simp add: valueUpdate_def assms(2) notify_def call_def)

theorem newer_file_taken_over_witness:
  "let w = example_world\<lparr>files := [''lamp.dat'' \<mapsto> \<lparr>file_data = [7], file_time = 9\<rparr>]\<rparr>
   in \<exists>r' w'. valueUpdate example_resource w = (r', w') \<and>
      r_value r' = [7] \<and> valueUpdate r' w' = (r', w') \<and>
      coap_calls w' = coap_calls w @
        (if observable (r_config example_resource) then [NotifyObservers (getPath example_resource)]
         else [])"
  using newer_file_taken_over [of example_resource
      "example_world\<lparr>files := [''lamp.dat'' \<mapsto> \<lparr>file_data = [7], file_time = 9\<rparr>]\<rparr>"
      "\<lparr>file_data = [7], file_time = 9\<rparr>"]
  by (simp add: Let_def example_resource_def example_world_def)

text \<open>C28: attaching registers the handlers of exactly the methods, and starts the resource with the
  contents of its data file where that exists and with the configured value otherwise; value and
  file agree afterwards. With a method other than GET, POST or PUT it returns 1 and sets no value.\<close>

theorem attach_starts_resource:
  assumes "file_accessible r w"
  shows "\<exists>ret r' w'. attach r w = Inr (ret, r', w') \<and>
    (if servable r then ret = 0 \<and> r_value r' = starting_value r w \<and> in_sync r' w' \<and>
       take (length (attach_calls r)) (drop (length (coap_calls w)) (coap_calls w')) = attach_calls r
     else ret = 1 \<and> r' = r)"
proof (cases "servable r")
  case True
  obtain r' w' where a: "attach r w = Inr (0, r', w')" "r_value r' = starting_value r w" "in_sync r' w'"
    using attach_result [OF True assms] by blast
  have "\<exists>more. coap_calls w' = (coap_calls w @ attach_calls r) @ more"
    using a(1) unfolding attach_servable [OF True]
    by (auto simp: Let_def res_simps setValue_string_def setValue_def valueUpdate_def notify_def
        call_def write_file_def last_write_time_def attached_world_def
        split: if_splits option.splits)
  then show ?thesis using True a by auto
next
  case False
  then show ?thesis using attach_unservable [OF False, of w] by auto
qed

theorem attach_starts_resource_witness:
  "\<exists>ret r' w'. attach example_resource example_world = Inr (ret, r', w') \<and> ret = 0 \<and>
     r_value r' = map byte_of_char ''off''"
proof -
  have "file_accessible example_resource example_world"
    by (simp add: file_accessible_def example_world_def)
  note attached = attach_starts_resource [OF this]
  have "servable example_resource"
    by (simp add: servable_def example_resource_def getMethodType_def)
  with attached show ?thesis
    by (auto simp: starting_value_def example_resource_def example_world_def)
qed

end
