(* ===== verification/ValueThreads.thy ===== *)
theory ValueThreads
  imports Resources
begin

text \<open>
  The value of a resource under its two writers: the request handler thread calls
  \<open>Resource::setValue\<close>, the value update thread calls \<open>Resource::valueUpdate\<close>, and other programs
  write the data file. \<open>dataFileLock\<close> covers the accesses to the file, \<open>valueLock\<close> each single
  assignment of the value; an execution is an interleaving of the steps between these points. The
  sequential versions of both operations are in \<open>Resources\<close>.
\<close>

section \<open>State and steps\<close>

text \<open>
  Where the handler thread is in \<open>setValue(v)\<close>: outside, about to assign the value, to take
  \<open>dataFileLock\<close>, to open the file with truncation, to write it, to read its time, to release the
  lock. \<open>SetOverrun\<close> is a write longer than the buffer of \<open>v\<close>.
\<close>

datatype set_pc =
    SetIdle | SetAssign bytes | SetLock bytes | SetOpen bytes | SetWrite bytes | SetStamp
  | SetUnlock | SetOverrun

text \<open>
  Where the update thread is in \<open>valueUpdate\<close>: about to compare the times, to take the lock (with
  the time read), to ask for the file size, to read that many bytes, to assign the value, to store
  the time, to release the lock.
\<close>

datatype upd_pc =
    UpdTest | UpdLock int | UpdSize int | UpdRead int nat | UpdAssign int bytes | UpdStamp int
  | UpdUnlock

datatype lock_owner = HandlerThread | UpdateThread

record value_threads =
  vt_value :: bytes
  vt_file :: bytes
  vt_mtime :: int
  vt_seen :: int
  vt_clock :: int
  vt_lock :: "lock_owner option"
  set_at :: set_pc
  upd_at :: upd_pc

text \<open>The data file exists and both threads can open it; \<open>v\<close> is the value of the next call.\<close>

definition set_step :: "bytes \<Rightarrow> value_threads \<Rightarrow> value_threads" where
  "set_step v s = (case set_at s of
       SetIdle \<Rightarrow> s\<lparr>set_at := SetAssign v\<rparr>
     | SetAssign x \<Rightarrow> s\<lparr>vt_value := x, set_at := SetLock x\<rparr>
     | SetLock x \<Rightarrow>
         if vt_lock s = None then s\<lparr>vt_lock := Some HandlerThread, set_at := SetOpen x\<rparr> else s
     | SetOpen x \<Rightarrow> s\<lparr>vt_file := [], vt_mtime := vt_clock s, set_at := SetWrite x\<rparr>
     | SetWrite x \<Rightarrow>
         let n = length (vt_value s)
         in if length x < n then s\<lparr>set_at := SetOverrun\<rparr>
            else s\<lparr>vt_file := take n x, vt_mtime := vt_clock s, set_at := SetStamp\<rparr>
     | SetStamp \<Rightarrow> s\<lparr>vt_seen := vt_mtime s, set_at := SetUnlock\<rparr>
     | SetUnlock \<Rightarrow> s\<lparr>vt_lock := None, set_at := SetIdle\<rparr>
     | SetOverrun \<Rightarrow> s)"

definition upd_step :: "value_threads \<Rightarrow> value_threads" where
  "upd_step s = (case upd_at s of
       UpdTest \<Rightarrow> if vt_mtime s \<le> vt_seen s then s else s\<lparr>upd_at := UpdLock (vt_mtime s)\<rparr>
     | UpdLock m \<Rightarrow>
         if vt_lock s = None then s\<lparr>vt_lock := Some UpdateThread, upd_at := UpdSize m\<rparr> else s
     | UpdSize m \<Rightarrow> s\<lparr>upd_at := UpdRead m (length (vt_file s))\<rparr>
     | UpdRead m n \<Rightarrow>
         s\<lparr>upd_at := UpdAssign m (take n (vt_file s) @ replicate (n - length (vt_file s)) 0)\<rparr>
     | UpdAssign m d \<Rightarrow> s\<lparr>vt_value := d, upd_at := UpdStamp m\<rparr>
     | UpdStamp m \<Rightarrow> s\<lparr>vt_seen := m, upd_at := UpdUnlock\<rparr>
     | UpdUnlock \<Rightarrow> s\<lparr>vt_lock := None, upd_at := UpdTest\<rparr>)"

text \<open>Another program replaces the file; time passes.\<close>

definition edit_step :: "bytes \<Rightarrow> value_threads \<Rightarrow> value_threads" where
  "edit_step d s = s\<lparr>vt_file := d, vt_mtime := vt_clock s\<rparr>"

definition tick_step :: "value_threads \<Rightarrow> value_threads" where
  "tick_step s = s\<lparr>vt_clock := vt_clock s + 1\<rparr>"

datatype value_turn = SetTurn bytes | UpdTurn | EditTurn bytes | TickTurn

fun value_turn_step :: "value_turn \<Rightarrow> value_threads \<Rightarrow> value_threads" where
  "value_turn_step (SetTurn v) s = set_step v s"
| "value_turn_step UpdTurn s = upd_step s"
| "value_turn_step (EditTurn d) s = edit_step d s"
| "value_turn_step TickTurn s = tick_step s"

text \<open>Both threads outside their operations, value and file in agreement.\<close>

definition value_threads_init :: "bytes \<Rightarrow> value_threads" where
  "value_threads_init d = \<lparr>vt_value = d, vt_file = d, vt_mtime = 0, vt_seen = 0, vt_clock = 1,
     vt_lock = None, set_at = SetIdle, upd_at = UpdTest\<rparr>"

inductive value_reachable :: "bytes \<Rightarrow> value_threads \<Rightarrow> bool" for d where
  start: "value_reachable d (value_threads_init d)"
| turn: "value_reachable d s \<Longrightarrow> value_reachable d (value_turn_step t s)"

text \<open>
  The window: the update thread, which holds \<open>dataFileLock\<close>, assigns the value while the handler
  thread has assigned its own and waits for the lock.
\<close>

definition assigns_in_window :: "value_turn \<Rightarrow> value_threads \<Rightarrow> bool" where
  "assigns_in_window t s \<longleftrightarrow> t = UpdTurn \<and> (case upd_at s of UpdAssign _ _ \<Rightarrow> True | _ \<Rightarrow> False) \<and>
     (case set_at s of SetLock _ \<Rightarrow> True | _ \<Rightarrow> False)"

inductive value_reachable_apart :: "bytes \<Rightarrow> value_threads \<Rightarrow> bool" for d where
  start: "value_reachable_apart d (value_threads_init d)"
| turn: "value_reachable_apart d s \<Longrightarrow> \<not> assigns_in_window t s \<Longrightarrow>
    value_reachable_apart d (value_turn_step t s)"

lemma apart_reachable: "value_reachable_apart d s \<Longrightarrow> value_reachable d s"
  by (induction rule: value_reachable_apart.induct) (auto intro: value_reachable.intros)

section \<open>The file is written and read under the lock\<close>

definition in_set_section :: "value_threads \<Rightarrow> bool" where
  "in_set_section s \<longleftrightarrow> (case set_at s of
       SetOpen _ \<Rightarrow> True | SetWrite _ \<Rightarrow> True | SetStamp \<Rightarrow> True | SetUnlock \<Rightarrow> True
     | SetOverrun \<Rightarrow> True | _ \<Rightarrow> False)"

definition in_upd_section :: "value_threads \<Rightarrow> bool" where
  "in_upd_section s \<longleftrightarrow> (case upd_at s of
       UpdSize _ \<Rightarrow> True | UpdRead _ _ \<Rightarrow> True | UpdAssign _ _ \<Rightarrow> True | UpdStamp _ \<Rightarrow> True
     | UpdUnlock \<Rightarrow> True | _ \<Rightarrow> False)"

definition lock_inv :: "value_threads \<Rightarrow> bool" where
  "lock_inv s \<longleftrightarrow> (in_set_section s \<longleftrightarrow> vt_lock s = Some HandlerThread) \<and>
     (in_upd_section s \<longleftrightarrow> vt_lock s = Some UpdateThread)"

lemmas section_defs = in_set_section_def in_upd_section_def

lemma lock_inv_init: "lock_inv (value_threads_init d)"
  by (simp add: lock_inv_def section_defs value_threads_init_def)

lemma lock_inv_set: "lock_inv s \<Longrightarrow> lock_inv (set_step v s)"
  by (cases "set_at s"; cases "upd_at s")
    (auto simp: lock_inv_def section_defs set_step_def Let_def)

lemma lock_inv_upd: "lock_inv s \<Longrightarrow> lock_inv (upd_step s)"
  by (cases "set_at s"; cases "upd_at s")
    (auto simp: lock_inv_def section_defs upd_step_def)

lemma lock_inv_turn: "lock_inv s \<Longrightarrow> lock_inv (value_turn_step t s)"
  by (cases t)
    (simp_all add: lock_inv_set lock_inv_upd,
      simp_all add: lock_inv_def section_defs edit_step_def tick_step_def)

lemma value_reachable_lock: "value_reachable d s \<Longrightarrow> lock_inv s"
  by (induction rule: value_reachable.induct) (auto intro: lock_inv_init lock_inv_turn)

section \<open>Whole values when the threads keep apart\<close>

text \<open>From its assignment to its write the handler thread's value is the value of the resource.\<close>

definition own_value :: "value_threads \<Rightarrow> bool" where
  "own_value s \<longleftrightarrow> (case set_at s of
       SetLock x \<Rightarrow> vt_value s = x | SetOpen x \<Rightarrow> vt_value s = x | SetWrite x \<Rightarrow> vt_value s = x
     | SetOverrun \<Rightarrow> False | _ \<Rightarrow> True)"

lemma own_value_set: "own_value s \<Longrightarrow> own_value (set_step v s)"
  by (cases "set_at s") (auto simp: own_value_def set_step_def)

lemma own_value_upd:
  "lock_inv s \<Longrightarrow> own_value s \<Longrightarrow> \<not> assigns_in_window UpdTurn s \<Longrightarrow> own_value (upd_step s)"
  by (cases "set_at s"; cases "upd_at s")
    (auto simp: own_value_def lock_inv_def section_defs upd_step_def assigns_in_window_def)

lemma own_value_frame: "own_value s \<Longrightarrow> own_value (edit_step x s)" "own_value s \<Longrightarrow> own_value (tick_step s)"
  by (cases "set_at s"; simp add: own_value_def edit_step_def tick_step_def)+

lemma own_value_turn:
  "lock_inv s \<Longrightarrow> own_value s \<Longrightarrow> \<not> assigns_in_window t s \<Longrightarrow> own_value (value_turn_step t s)"
  by (cases t) (auto simp: own_value_set own_value_upd own_value_frame)

lemma value_apart_own: "value_reachable_apart d s \<Longrightarrow> own_value s"
proof (induction rule: value_reachable_apart.induct)
  case start
  show ?case by (simp add: own_value_def value_threads_init_def)
next
  case (turn s t)
  then show ?case
    using own_value_turn value_reachable_lock [OF apart_reachable [OF turn.hyps(1)]] by blast
qed

section \<open>Executions in which the threads overlap\<close>

definition value_run :: "value_turn list \<Rightarrow> value_threads \<Rightarrow> value_threads" where
  "value_run ts s = fold value_turn_step ts s"

lemma value_reachable_run: "value_reachable d s \<Longrightarrow> value_reachable d (value_run ts s)"
  by (induction ts arbitrary: s) (auto simp: value_run_def intro: value_reachable.turn)

text \<open>
  Another program writes \<open>d\<close> to the file; the update thread takes the lock and reads it; the handler
  thread assigns \<open>v\<close> and waits; the update thread assigns \<open>d\<close> and finishes; the handler thread
  finishes.
\<close>

definition overlap_turns :: "bytes \<Rightarrow> bytes \<Rightarrow> value_turn list" where
  "overlap_turns d v = [EditTurn d] @ replicate 4 UpdTurn @ replicate 2 (SetTurn v) @
     replicate 3 UpdTurn @ [TickTurn] @ replicate 5 (SetTurn v)"

lemma overlap_turns_overrun:
  "set_at (value_run (overlap_turns [1, 2, 3] [9]) (value_threads_init [])) = SetOverrun"
  by code_simp

lemma overlap_turns_stale:
  "value_run (overlap_turns [1, 2] [8, 9]) (value_threads_init []) =
     \<lparr>vt_value = [1, 2], vt_file = [8, 9], vt_mtime = 2, vt_seen = 2, vt_clock = 2,
      vt_lock = None, set_at = SetIdle, upd_at = UpdTest\<rparr>"
  by code_simp

section \<open>Properties\<close>

text \<open>A run in which the threads keep apart, checked step by step.\<close>

fun value_apart_run :: "value_turn list \<Rightarrow> value_threads \<Rightarrow> bool" where
  "value_apart_run [] s = True"
| "value_apart_run (t # ts) s \<longleftrightarrow> \<not> assigns_in_window t s \<and> value_apart_run ts (value_turn_step t s)"

lemma value_reachable_apart_run:
  "value_apart_run ts s \<Longrightarrow> value_reachable_apart d s \<Longrightarrow> value_reachable_apart d (value_run ts s)"
  by (induction ts arbitrary: s) (auto simp: value_run_def intro: value_reachable_apart.turn)

text \<open>The two writers of a value never access its file at the same time, in any interleaving.\<close>

lemma file_lock_excludes:
  assumes "value_reachable d s"
  shows "\<not> (in_set_section s \<and> in_upd_section s)"
  using value_reachable_lock [OF assms] by (auto simp: lock_inv_def)

lemma file_lock_excludes_example:
  "let s = value_run [EditTurn [5], UpdTurn, UpdTurn, SetTurn [6], SetTurn [6], SetTurn [6]]
         (value_threads_init [])
   in \<not> (in_set_section s \<and> in_upd_section s) \<and> in_upd_section s \<and> set_at s = SetLock [6]"
proof -
  let ?s = "value_run [EditTurn [5], UpdTurn, UpdTurn, SetTurn [6], SetTurn [6], SetTurn [6]]
         (value_threads_init [])"
  have "value_reachable [] ?s" by (rule value_reachable_run) (rule value_reachable.start)
  moreover have "in_upd_section ?s" "set_at ?s = SetLock [6]" by code_simp+
  ultimately show ?thesis using file_lock_excludes [of "[]" ?s] by (simp add: Let_def)
qed

text \<open>C24: as long as the update thread does not assign the value while the handler thread waits for the
  file lock in \<open>setValue(v)\<close>, the write stays inside its buffer and stores exactly \<open>v\<close>.\<close>

theorem apart_writes_whole_value:
  assumes "value_reachable_apart d s"
  shows "set_at s \<noteq> SetOverrun \<and>
    (set_at s = SetWrite v \<longrightarrow> vt_value s = v \<and> vt_file (set_step x s) = v)"
  using value_apart_own [OF assms] by (auto simp: own_value_def set_step_def)

theorem apart_writes_whole_value_witness:
  "let s = value_run (replicate 4 (SetTurn [6, 7])) (value_threads_init [1])
   in set_at s \<noteq> SetOverrun \<and>
      (set_at s = SetWrite [6, 7] \<longrightarrow> vt_value s = [6, 7] \<and> vt_file (set_step [] s) = [6, 7]) \<and>
      set_at s = SetWrite [6, 7]"
proof -
  let ?ts = "replicate 4 (SetTurn [6, 7])"
  have "value_apart_run ?ts (value_threads_init [1])" by code_simp
  then have "value_reachable_apart [1] (value_run ?ts (value_threads_init [1]))"
    by (rule value_reachable_apart_run [OF _ value_reachable_apart.start])
  moreover have "set_at (value_run ?ts (value_threads_init [1])) = SetWrite [6, 7]" by code_simp
  ultimately show ?thesis
    using apart_writes_whole_value [of "[1]" "value_run ?ts (value_threads_init [1])" "[6, 7]" "[]"]
    by (simp only: Let_def) simp
qed

text \<open>C25: in that window the length that \<open>setValue\<close> reads outside the lock can be that of another value:
  there is an execution in which it writes past the end of its buffer, and one that ends with both
  threads idle, the stored value in the file, and the file's previous contents as the value.\<close>

theorem overlap_corrupts_value:
  "(\<exists>s. value_reachable [] s \<and> set_at s = SetOverrun) \<and>
   (\<exists>s. value_reachable [] s \<and> set_at s = SetIdle \<and> upd_at s = UpdTest \<and>
      vt_file s = [8, 9] \<and> vt_value s = [1, 2] \<and> vt_mtime s = vt_seen s)"
proof
  show "\<exists>s. value_reachable [] s \<and> set_at s = SetOverrun"
    using value_reachable_run [OF value_reachable.start] overlap_turns_overrun by blast
  show "\<exists>s. value_reachable [] s \<and> set_at s = SetIdle \<and> upd_at s = UpdTest \<and>
      vt_file s = [8, 9] \<and> vt_value s = [1, 2] \<and> vt_mtime s = vt_seen s"
    using value_reachable_run [OF value_reachable.start, of "[]" "overlap_turns [1, 2] [8, 9]"]
    by (auto simp: overlap_turns_stale)
qed

end
