(* ===== verification/Requests.thy ===== *)
theory Requests
  imports Resources RequestQueue Blockwise
begin

text \<open>
  Requests to a resource: the handlers that libcoap calls on the server thread
  (\<open>Resource::handleCoAPRequest\<close>, \<open>ResourceMethod::methodHandler\<close>) and the work the request handler
  thread does for a queued request (\<open>ResourceMethod::handleRequestQueueItem\<close>,
  \<open>ResourceMethod::executeCmd\<close>), in \<open>src/Resource.cpp\<close> and \<open>src/ResourceMethod.cpp\<close>.
\<close>

section \<open>Responses and queue items\<close>

text \<open>The calls made on the response PDU, in order; the option and code names are those of libcoap.\<close>

datatype response_code =
    CODE_OK | CODE_CONTENT | CODE_CONTINUE | CODE_NOT_FOUND | CODE_NOT_ALLOWED | CODE_INTERNAL_ERROR

datatype coap_option = OPTION_URI_PATH | OPTION_CONTENT_FORMAT | OPTION_MAXAGE

datatype pdu_call =
    SetCode response_code
  | SetTypeAck
  | AddOption coap_option bytes
  | AddData bytes

text \<open>
  \<open>RequestQueueItem\<close>: the \<open>ResourceMethod\<close> pointer is the number of the resource and of the method
  in it.
\<close>

record request_item =
  item_src :: "nat \<times> nat"
  item_data :: bytes
  item_time :: timeval

section \<open>\<open>ResourceMethod::methodHandler\<close>\<close>

text \<open>\<open>strncpy(dst, src, n)\<close> into an array, and \<open>strlen\<close> of an array.\<close>

definition strncpy :: "bytes \<Rightarrow> bytes \<Rightarrow> nat \<Rightarrow> bytes" where
  "strncpy dst s n = take n (s @ replicate (n - length s) 0) @ drop n dst"

definition strlen :: "bytes \<Rightarrow> nat res" where
  "strlen buf =
     (if 0 \<in> set buf then Inr (length (takeWhile (\<lambda>b. b \<noteq> 0) buf))
      else Inl (Undefined ''strlen reads past the end of the array''))"

definition MEDIATYPE_TEXT_PLAIN :: u32 where
  "MEDIATYPE_TEXT_PLAIN = 0"

text \<open>
  \<open>encode n v\<close> are the bytes \<open>coap_encode_var_safe(buf, n, v)\<close> writes, \<open>stack\<close> is what the local
  array \<open>buf\<close> (256 bytes) holds before it is written, \<open>this\<close> the method and \<open>tv\<close> the time of day.
  (\<open>&val[0]\<close> of an empty value is taken as a pointer that is not read, since the size is 0.)
\<close>

definition methodHandler ::
  "(nat \<Rightarrow> u32 \<Rightarrow> bytes) \<Rightarrow> bytes \<Rightarrow> timeval \<Rightarrow> nat \<times> nat \<Rightarrow> resource \<Rightarrow> resource_method \<Rightarrow> bytes \<Rightarrow>
   request_item request_queue \<Rightarrow> (pdu_call list \<times> request_item request_queue) res" where
  "methodHandler encode stack tv this r m data queue =
     (case getMethodType m of
        GET \<Rightarrow>
          let val = getValue r;
              path = getPath r
          in ebind (enqueue queue \<lparr>item_src = this, item_data = getValue r, item_time = tv\<rparr>)
              (\<lambda>(ret, queue').
               if ret \<noteq> 0 then Inr ([SetCode CODE_INTERNAL_ERROR], queue')
               else let buf = strncpy stack (map byte_of_char (c_string path)) 255
                    in ebind (strlen buf) (\<lambda>n.
                       Inr ([AddOption OPTION_URI_PATH (take n buf),
                             AddOption OPTION_CONTENT_FORMAT (encode 16 MEDIATYPE_TEXT_PLAIN),
                             AddOption OPTION_MAXAGE (encode 16 (getMaxAge r)),
                             AddData val,
                             SetCode CODE_CONTENT], queue')))
      | t \<Rightarrow>
          if t = PUT \<or> t = POST then
            ebind (enqueue queue \<lparr>item_src = this, item_data = data, item_time = tv\<rparr>)
              (\<lambda>(ret, queue').
               if ret \<noteq> 0 then Inr ([SetCode CODE_INTERNAL_ERROR], queue')
               else Inr ([SetCode CODE_OK, SetTypeAck], queue'))
          else Inr ([], queue))"

section \<open>\<open>Resource::handleCoAPRequest\<close>\<close>

text \<open>The loop over the methods finds the first one of the requested type.\<close>

definition find_method :: "ResourceMethodType \<Rightarrow> resource \<Rightarrow> nat option" where
  "find_method t r = find (\<lambda>j. getMethodType (r_methods r ! j) = t) [0..<length (r_methods r)]"

definition handleCoAPRequest ::
  "('c, 'q, 'e) cache_api \<Rightarrow> (nat \<Rightarrow> u32 \<Rightarrow> bytes) \<Rightarrow> bytes \<Rightarrow> timeval \<Rightarrow> nat \<Rightarrow> resource \<Rightarrow> 'q \<Rightarrow>
   large_data \<Rightarrow> ResourceMethodType \<Rightarrow> 'c block_state \<Rightarrow> request_item request_queue \<Rightarrow>
   (pdu_call list \<times> 'c block_state \<times> request_item request_queue) res" where
  "handleCoAPRequest A encode stack tv i r q ld method s queue =
     ebind (if method = PUT \<or> method = POST then sessionGetData A q ld [] s else Inr (1, [], s))
       (\<lambda>(ret, data, s').
        if ret = 0 then Inr ([SetCode CODE_CONTINUE], s', queue)
        else if ret < 0 then Inr ([SetCode CODE_INTERNAL_ERROR], s', queue)
        else (case find_method method r of
                None \<Rightarrow> Inr ([], s', queue)
              | Some j \<Rightarrow>
                  ebind (methodHandler encode stack tv (i, j) r (r_methods r ! j) data queue)
                    (\<lambda>(calls, queue'). Inr (calls, s', queue'))))"

section \<open>\<open>ResourceMethod::executeCmd\<close>\<close>

definition methStringify :: "ResourceMethodType \<Rightarrow> string" where
  "methStringify t = (case t of
       MethodNone \<Rightarrow> ''None'' | GET \<Rightarrow> ''GET'' | POST \<Rightarrow> ''POST'' | PUT \<Rightarrow> ''PUT''
     | DELETE \<Rightarrow> ''DELETE'' | FETCH \<Rightarrow> ''FETCH'' | PATCH \<Rightarrow> ''PATCH'' | iPATCH \<Rightarrow> ''iPATCH'')"

text \<open>
  The process library (Boost.Process) is not part of the sources: \<open>run cmd env input timeout\<close> is what
  starting a command with an environment and an input leads to. The launch fails, or \<open>wait_for\<close>
  gives up, or the command exits with a code and its output.
\<close>

datatype cmd_outcome = LaunchFailed | TimedOut | Exited int string

type_synonym cmd_runner =
  "string \<Rightarrow> (string \<Rightarrow> string option) \<Rightarrow> string \<Rightarrow> u32 \<Rightarrow> cmd_outcome"

text \<open>\<open>while(std::getline(cstdout, line) && !line.empty()) data << line;\<close>\<close>

function collect_lines :: "string \<Rightarrow> string" where
  "collect_lines out =
     (case getline out of
        None \<Rightarrow> []
      | Some (line, rest) \<Rightarrow> if line = [] then [] else line @ collect_lines rest)"
  by pat_completeness auto
termination
  by (relation "measure length") (auto dest: getline_shorter)

declare collect_lines.simps [simp del]

text \<open>The result is the return value and the new contents of the string stream \<open>data\<close>.\<close>

definition executeCmd ::
  "cmd_runner \<Rightarrow> (string \<Rightarrow> string option) \<Rightarrow> resource \<Rightarrow> resource_method \<Rightarrow> string \<Rightarrow> string \<Rightarrow>
   (int \<times> string) res" where
  "executeCmd run base_env r m data command =
     (let dataIn = data;
          env = base_env(''COAPSERVER_PAYLOAD'' \<mapsto> dataIn, ''COAPSERVER_RESOURCE'' \<mapsto> getPath r,
                  ''COAPSERVER_METHOD'' \<mapsto> methStringify (getMethodType m));
          input = (if cmdStdin (m_config m) then dataIn else [])
      in case run command env input (cmdTimeout (m_config m)) of
           LaunchFailed \<Rightarrow> Inl (LibraryThrow ''boost::process::process_error'')
         | TimedOut \<Rightarrow> Inr (-1, data)
         | Exited exit_code out \<Rightarrow> Inr (exit_code, collect_lines out))"

section \<open>\<open>ResourceMethod::handleRequestQueueItem\<close>\<close>

text \<open>
  The time stamp: \<open>strftime\<close> into a buffer of 24 bytes, then the milliseconds behind it.
  \<open>localtime\<close> depends on the time zone of the host and is a parameter.
\<close>

definition time_stamp :: "(int \<Rightarrow> tm) \<Rightarrow> timeval \<Rightarrow> string" where
  "time_stamp localtime tv =
     (let s = strftime_fit 24 (iso_time (localtime (tv_sec tv)))
      in s @ snprintf_fit (24 - length s) (CHR ''.'' # zero_padded 3 (tv_usec tv div 1000)))"

text \<open>
  The body of the loops over the formatters: decode into a new string stream, and run the command
  on it, or on a copy behind it when its input is to be logged. \<open>sss\<close> are the contents of the
  string streams.
\<close>

definition format_and_run ::
  "cmd_runner \<Rightarrow> (string \<Rightarrow> string option) \<Rightarrow> resource \<Rightarrow> resource_method \<Rightarrow> bytes \<Rightarrow> formatter \<Rightarrow>
   string list \<Rightarrow> string list res" where
  "format_and_run run base_env r m data f sss =
     (let sss1 = sss @ [written (snd (decode f data new_ostream))]
      in if cmd (m_config m) \<noteq> [] then
           let sss2 = (if cmdLogInput (m_config m) then sss1 @ [last sss1] else sss1)
           in ebind (executeCmd run base_env r m (last sss2) (cmd (m_config m))) (\<lambda>(_, out).
                Inr (butlast sss2 @ [out]))
         else Inr sss1)"

fun get_loop ::
  "cmd_runner \<Rightarrow> (string \<Rightarrow> string option) \<Rightarrow> resource_method \<Rightarrow> bytes \<Rightarrow> bool \<Rightarrow> formatter list \<Rightarrow>
   string list \<Rightarrow> resource \<Rightarrow> world \<Rightarrow> (string list \<times> resource \<times> world) res" where
  "get_loop run base_env m data first [] sss r w = Inr (sss, r, w)"
| "get_loop run base_env m data first (f # fs) sss r w =
     ebind (format_and_run run base_env r m data f sss) (\<lambda>sss'.
     ebind (if store (m_config m) \<and> first then setValue_string (last sss') r w else Inr (r, w))
       (\<lambda>(r', w'). get_loop run base_env m data False fs sss' r' w'))"

fun put_loop ::
  "cmd_runner \<Rightarrow> (string \<Rightarrow> string option) \<Rightarrow> resource \<Rightarrow> resource_method \<Rightarrow> bytes \<Rightarrow> formatter list \<Rightarrow>
   string list \<Rightarrow> string list res" where
  "put_loop run base_env r m data [] sss = Inr sss"
| "put_loop run base_env r m data (f # fs) sss =
     ebind (format_and_run run base_env r m data f sss) (\<lambda>sss'.
       put_loop run base_env r m data fs sss')"

text \<open>The loop at the end: every string goes to the standard output and to the log file.\<close>

definition emit :: "resource \<Rightarrow> resource_method \<Rightarrow> string \<Rightarrow> string \<Rightarrow> world \<Rightarrow> world" where
  "emit r m logValueText s w =
     (let w1 = (if printValue (m_config m)
                then w\<lparr>stdout_lines := stdout_lines w @ [logValueText @ s]\<rparr> else w)
      in if logValue (m_config m) then writeLog r (logValueText @ s) w1 else w1)"

definition log_prefix :: "(int \<Rightarrow> tm) \<Rightarrow> timeval \<Rightarrow> resource \<Rightarrow> resource_method \<Rightarrow> string" where
  "log_prefix localtime tv r m =
     time_stamp localtime tv @ '' | '' @ getPath r @ '':'' @ methStringify (getMethodType m) @ '': ''"

definition handleRequestQueueItem ::
  "(int \<Rightarrow> tm) \<Rightarrow> cmd_runner \<Rightarrow> (string \<Rightarrow> string option) \<Rightarrow> resource_method \<Rightarrow> request_item \<Rightarrow>
   resource \<Rightarrow> world \<Rightarrow> (int \<times> resource \<times> world) res" where
  "handleRequestQueueItem localtime run base_env m item r w =
     ebind (case getMethodType m of
         GET \<Rightarrow> get_loop run base_env m (item_data item) True (m_fmts m) [] r w
       | t \<Rightarrow>
           if t = PUT \<or> t = POST then
             ebind (put_loop run base_env r m (item_data item) (m_fmts m) []) (\<lambda>sss.
             ebind (if store (m_config m) then setValue (item_data item) r w else Inr (r, w))
               (\<lambda>(r', w'). Inr (sss, r', w')))
           else Inr ([], r, w)) (\<lambda>(sss, r', w').
       Inr (0, r', fold (emit r' m (log_prefix localtime (item_time item) r' m)) sss w'))"


section \<open>Responses\<close>

text \<open>The Uri-Path option: the path up to 254 characters comes out whole.\<close>

lemma strncpy_short:
  assumes "length p < 255" and "length stack = 256" and "0 \<notin> set p"
  shows "strlen (strncpy stack p 255) = Inr (length p)"
    and "take (length p) (strncpy stack p 255) = p"
proof -
  have buf: "strncpy stack p 255 = p @ replicate (255 - length p) 0 @ drop 255 stack"
    using assms by (simp add: strncpy_def)
  have "replicate (255 - length p) (0 :: byte) = 0 # replicate (254 - length p) 0"
    using assms(1) by (simp flip: replicate_Suc)
  then show "strlen (strncpy stack p 255) = Inr (length p)"
    using assms(3) by (simp add: buf strlen_def takeWhile_before)
  show "take (length p) (strncpy stack p 255) = p" by (simp add: buf)
qed

text \<open>A longer path leaves the last byte of the array as it was.\<close>

lemma strncpy_long:
  assumes "255 \<le> length p" and "length stack = 256" and "0 \<notin> set p"
  shows "strncpy stack p 255 = take 255 p @ [stack ! 255]"
    and "stack ! 255 \<noteq> 0 \<Longrightarrow>
      strlen (strncpy stack p 255) = Inl (Undefined ''strlen reads past the end of the array'')"
    and "stack ! 255 = 0 \<Longrightarrow> strlen (strncpy stack p 255) = Inr 255"
proof -
  have "drop 255 stack = [stack ! 255]"
    using assms(2) Cons_nth_drop_Suc [of 255 stack] by simp
  then show buf: "strncpy stack p 255 = take 255 p @ [stack ! 255]"
    using assms(1) by (simp add: strncpy_def)
  have "0 \<notin> set (take 255 p)" using assms(3) by (meson in_set_takeD)
  then show "stack ! 255 \<noteq> 0 \<Longrightarrow>
      strlen (strncpy stack p 255) = Inl (Undefined ''strlen reads past the end of the array'')"
    and "stack ! 255 = 0 \<Longrightarrow> strlen (strncpy stack p 255) = Inr 255"
    using assms(1) by (auto simp: buf strlen_def takeWhile_before)
qed

definition path_bytes :: "resource \<Rightarrow> bytes" where
  "path_bytes r = map byte_of_char (c_string (getPath r))"

lemma path_bytes_no_NUL: "0 \<notin> set (path_bytes r)"
  using c_string_no_NUL [of "getPath r"]
  by (auto simp: path_bytes_def) (metis byte_of_char_0_iff)

definition content_response :: "(nat \<Rightarrow> u32 \<Rightarrow> bytes) \<Rightarrow> resource \<Rightarrow> pdu_call list" where
  "content_response encode r =
     [AddOption OPTION_URI_PATH (path_bytes r),
      AddOption OPTION_CONTENT_FORMAT (encode 16 MEDIATYPE_TEXT_PLAIN),
      AddOption OPTION_MAXAGE (encode 16 (getMaxAge r)),
      AddData (getValue r),
      SetCode CODE_CONTENT]"

definition queued :: "nat \<times> nat \<Rightarrow> bytes \<Rightarrow> timeval \<Rightarrow> request_item" where
  "queued this data tv = \<lparr>item_src = this, item_data = data, item_time = tv\<rparr>"

lemma methodHandler_full:
  assumes "rq_wf queue" and "rq_len queue = rq_capacity queue"
    and "getMethodType m \<in> {GET, POST, PUT}"
  shows "methodHandler encode stack tv this r m data queue =
    Inr ([SetCode CODE_INTERNAL_ERROR], queue)"
  using assms enqueue_full [OF assms(1,2)] by (auto simp: methodHandler_def Let_def)

lemma methodHandler_GET:
  assumes "rq_wf queue" and "rq_len queue < rq_capacity queue" and "getMethodType m = GET"
    and "length (path_bytes r) < 255" and "length stack = 256"
  shows "\<exists>queue'. methodHandler encode stack tv this r m data queue =
      Inr (content_response encode r, queue') \<and> rq_wf queue' \<and>
    rq_contents queue' = rq_contents queue @ [queued this (getValue r) tv] \<and>
    rq_capacity queue' = rq_capacity queue"
  using enqueue_room [OF assms(1,2), of "queued this (getValue r) tv"] assms(3)
    strncpy_short [OF assms(4,5) path_bytes_no_NUL]
  by (auto simp: methodHandler_def content_response_def Let_def path_bytes_def queued_def)

lemma methodHandler_PUT_POST:
  assumes "rq_wf queue" and "rq_len queue < rq_capacity queue" and "getMethodType m \<in> {POST, PUT}"
  shows "\<exists>queue'. methodHandler encode stack tv this r m data queue =
      Inr ([SetCode CODE_OK, SetTypeAck], queue') \<and> rq_wf queue' \<and>
    rq_contents queue' = rq_contents queue @ [queued this data tv] \<and>
    rq_capacity queue' = rq_capacity queue"
  using enqueue_room [OF assms(1,2), of "queued this data tv"] assms(3)
  by (auto simp: methodHandler_def queued_def)

lemma find_method_Some:
  "find_method t r = Some j \<Longrightarrow> j < length (r_methods r) \<and> getMethodType (r_methods r ! j) = t"
  by (auto simp: find_method_def find_Some_iff)

lemma find_method_exists:
  assumes "m \<in> set (r_methods r)" and "getMethodType m = t"
  shows "\<exists>j. find_method t r = Some j"
proof -
  have "find_method t r \<noteq> None"
    using assms by (auto simp: find_method_def find_None_iff in_set_conv_nth)
  then show ?thesis by auto
qed

section \<open>Output of a command\<close>

text \<open>The lines of a text, and what \<open>collect_lines\<close> keeps: those before the first empty one.\<close>

function lines_of :: "string \<Rightarrow> string list" where
  "lines_of s =
     (if s = [] then []
      else takeWhile (\<lambda>c. c \<noteq> CHR 0x0A) s # lines_of (tl (dropWhile (\<lambda>c. c \<noteq> CHR 0x0A) s)))"
  by pat_completeness auto
termination
proof (relation "measure length", goal_cases)
  case (2 s)
  then show ?case
    using length_dropWhile_le [of "\<lambda>c. c \<noteq> CHR 0x0A" s]
    by (cases s) (auto intro: le_less_trans [OF _ lessI] simp: diff_le_mono less_Suc_eq_le)
qed simp

declare lines_of.simps [simp del]

lemma getline_takeWhile:
  "s \<noteq> [] \<Longrightarrow> getline s =
     Some (takeWhile (\<lambda>c. c \<noteq> CHR 0x0A) s, tl (dropWhile (\<lambda>c. c \<noteq> CHR 0x0A) s))"
  by (induction s rule: getline.induct) (auto split: option.splits, (case_tac s; auto)+)

lemma collect_lines_spec: "collect_lines s = concat (takeWhile (\<lambda>l. l \<noteq> []) (lines_of s))"
proof (induction s rule: collect_lines.induct)
  case (1 out)
  show ?case
  proof (cases "out = []")
    case True
    then show ?thesis by (simp add: collect_lines.simps [of "[]"] lines_of.simps [of "[]"])
  next
    case False
    then show ?thesis
      using 1 [OF getline_takeWhile [OF False] refl]
      by (simp add: collect_lines.simps [of out] lines_of.simps [of out] getline_takeWhile)
  qed
qed

section \<open>Queued requests\<close>

lemma format_and_run_plain:
  "cmd (m_config m) = [] \<Longrightarrow> format_and_run run env r m data f sss = Inr (sss @ [text_of f data])"
  by (simp add: format_and_run_def any_fmt.on_fresh_stream)

lemma put_loop_plain:
  "cmd (m_config m) = [] \<Longrightarrow>
   put_loop run env r m data fs sss = Inr (sss @ map (\<lambda>f. text_of f data) fs)"
  by (induction fs arbitrary: sss) (simp_all add: format_and_run_plain)

text \<open>What running the command on the one formatted text leaves to be printed.\<close>

definition command_env ::
  "(string \<Rightarrow> string option) \<Rightarrow> resource \<Rightarrow> resource_method \<Rightarrow> string \<Rightarrow> string \<Rightarrow> string option" where
  "command_env env r m input = env(''COAPSERVER_PAYLOAD'' \<mapsto> input,
     ''COAPSERVER_RESOURCE'' \<mapsto> getPath r, ''COAPSERVER_METHOD'' \<mapsto> methStringify (getMethodType m))"

definition command_outcome ::
  "cmd_runner \<Rightarrow> (string \<Rightarrow> string option) \<Rightarrow> resource \<Rightarrow> resource_method \<Rightarrow> string \<Rightarrow> cmd_outcome" where
  "command_outcome run env r m input =
     run (cmd (m_config m)) (command_env env r m input)
       (if cmdStdin (m_config m) then input else []) (cmdTimeout (m_config m))"

lemma format_and_run_command:
  assumes "cmd (m_config m) \<noteq> []"
  shows "format_and_run run env r m data f sss =
    (let shown = text_of f data;
         logged = (if cmdLogInput (m_config m) then [shown] else [])
     in case command_outcome run env r m shown of
          LaunchFailed \<Rightarrow> Inl (LibraryThrow ''boost::process::process_error'')
        | TimedOut \<Rightarrow> Inr (sss @ logged @ [shown])
        | Exited st out \<Rightarrow> Inr (sss @ logged @ [collect_lines out]))"
  using assms
  by (auto simp: format_and_run_def executeCmd_def command_outcome_def command_env_def Let_def
      any_fmt.on_fresh_stream butlast_append split: cmd_outcome.splits)

text \<open>The output of the strings touches nothing but the standard output and the log file.\<close>

definition emit_frame :: "resource \<Rightarrow> world \<Rightarrow> world \<Rightarrow> bool" where
  "emit_frame r w w' \<longleftrightarrow> (\<forall>p. Some p \<noteq> r_logFile r \<longrightarrow> files w' p = files w p) \<and>
     can_write w' = can_write w \<and> can_read w' = can_read w \<and> coap_calls w' = coap_calls w \<and>
     clock w' = clock w"

lemma emit_frame_step: "emit_frame r w (emit r m pre s w)"
  by (auto simp: emit_frame_def emit_def writeLog_def append_file_def Let_def
      split: option.splits)

lemma emit_frame_fold: "emit_frame r w (fold (emit r m pre) sss w)"
proof (induction sss arbitrary: w)
  case Nil
  then show ?case by (simp add: emit_frame_def)
next
  case (Cons s sss)
  show ?case
    using Cons [of "emit r m pre s w"] emit_frame_step [of r w m pre s]
    by (simp add: emit_frame_def)
qed

lemma writeLog_stdout [simp]: "stdout_lines (writeLog r s w) = stdout_lines w"
  by (simp add: writeLog_def append_file_def split: option.splits)

lemma emit_stdout:
  "stdout_lines (fold (emit r m pre) sss w) =
     stdout_lines w @ (if printValue (m_config m) then map (\<lambda>s. pre @ s) sss else [])"
  by (induction sss arbitrary: w) (simp_all add: emit_def Let_def)


text \<open>Requests that arrive whole, or with their last block.\<close>

lemma handle_body_request:
  assumes "rq_wf queue" and "rq_len queue < rq_capacity queue" and "method \<in> {POST, PUT}"
    and "sessionGetData A q ld [] s = Inr (1, d, s')" and "find_method method r = Some j"
  shows "\<exists>queue'. handleCoAPRequest A encode stack tv i r q ld method s queue =
      Inr ([SetCode CODE_OK, SetTypeAck], s', queue') \<and> rq_wf queue' \<and>
    rq_contents queue' = rq_contents queue @ [queued (i, j) d tv] \<and>
    rq_capacity queue' = rq_capacity queue"
proof -
  have "getMethodType (r_methods r ! j) \<in> {POST, PUT}"
    using find_method_Some [OF assms(5)] assms(3) by auto
  from methodHandler_PUT_POST [OF assms(1,2) this, of encode stack tv "(i, j)" r d] obtain queue' where
    "methodHandler encode stack tv (i, j) r (r_methods r ! j) d queue =
      Inr ([SetCode CODE_OK, SetTypeAck], queue')" "rq_wf queue'"
    "rq_contents queue' = rq_contents queue @ [queued (i, j) d tv]"
    "rq_capacity queue' = rq_capacity queue"
    by blast
  then show ?thesis using assms(3-5) by (auto simp: handleCoAPRequest_def)
qed

lemma handle_GET_request:
  assumes "rq_wf queue" and "rq_len queue < rq_capacity queue" and "find_method GET r = Some j"
    and "length (path_bytes r) < 255" and "length stack = 256"
  shows "\<exists>queue'. handleCoAPRequest A encode stack tv i r q ld GET s queue =
      Inr (content_response encode r, s, queue') \<and> rq_wf queue' \<and>
    rq_contents queue' = rq_contents queue @ [queued (i, j) (getValue r) tv] \<and>
    rq_capacity queue' = rq_capacity queue"
proof -
  have "getMethodType (r_methods r ! j) = GET" using find_method_Some [OF assms(3)] by simp
  from methodHandler_GET [OF assms(1,2) this assms(4,5), of encode tv "(i, j)" "[]"] obtain queue' where
    "methodHandler encode stack tv (i, j) r (r_methods r ! j) [] queue =
      Inr (content_response encode r, queue')" "rq_wf queue'"
    "rq_contents queue' = rq_contents queue @ [queued (i, j) (getValue r) tv]"
    "rq_capacity queue' = rq_capacity queue"
    by blast
  then show ?thesis using assms(3) by (simp add: handleCoAPRequest_def)
qed

text \<open>Storing: the commands of the method can be started, or it has none.\<close>

definition runnable :: "cmd_runner \<Rightarrow> resource_method \<Rightarrow> bool" where
  "runnable run m \<longleftrightarrow> cmd (m_config m) = [] \<or>
     (\<forall>env input. run (cmd (m_config m)) env input (cmdTimeout (m_config m)) \<noteq> LaunchFailed)"

lemma format_and_run_runnable:
  "runnable run m \<Longrightarrow> \<exists>sss'. format_and_run run env r m data f sss = Inr sss'"
  by (cases "cmd (m_config m) = []")
    (auto simp: format_and_run_plain format_and_run_command runnable_def command_outcome_def Let_def
      split: cmd_outcome.splits)

lemma put_loop_runnable: "runnable run m \<Longrightarrow> \<exists>sss'. put_loop run env r m data fs sss = Inr sss'"
proof (induction fs arbitrary: sss)
  case (Cons f fs)
  from format_and_run_runnable [OF Cons.prems] obtain sss1 where
    "format_and_run run env r m data f sss = Inr sss1" by blast
  with Cons show ?case by simp
qed simp

definition separate_log :: "resource \<Rightarrow> bool" where
  "separate_log r \<longleftrightarrow> r_dataFilePath r = [] \<or> r_logFile r \<noteq> Some (r_dataFilePath r)"

lemma in_sync_frame:
  "in_sync r w \<Longrightarrow> separate_log r \<Longrightarrow> emit_frame r w w' \<Longrightarrow> in_sync r w'"
  by (auto simp: in_sync_def separate_log_def emit_frame_def)

lemma handle_item_store:
  assumes "getMethodType m \<in> {POST, PUT}" and "store (m_config m)" and "runnable run m"
    and "can_store r w" and "separate_log r"
  shows "\<exists>r' w'. handleRequestQueueItem localtime run env m item r w = Inr (0, r', w') \<and>
    r_value r' = item_data item \<and> in_sync r' w' \<and> can_store r' w' \<and> r_config r' = r_config r \<and>
    r_methods r' = r_methods r \<and> r_logFile r' = r_logFile r \<and> r_dataFilePath r' = r_dataFilePath r"
proof -
  obtain sss where sss: "put_loop run env r m (item_data item) (m_fmts m) [] = Inr sss"
    using put_loop_runnable [OF assms(3)] by blast
  obtain r' w1 where s: "setValue (item_data item) r w = Inr (r', w1)"
      "r_value r' = item_data item" "in_sync r' w1" "can_store r' w1" "r_config r' = r_config r"
      "r_methods r' = r_methods r" "r_logFile r' = r_logFile r"
      "r_dataFilePath r' = r_dataFilePath r"
    using setValue_ok [OF assms(4), of "item_data item"] by blast
  define w' where
    "w' = fold (emit r' m (log_prefix localtime (item_time item) r' m)) sss w1"
  have fr: "emit_frame r' w1 w'" unfolding w'_def by (rule emit_frame_fold)
  have "handleRequestQueueItem localtime run env m item r w = Inr (0, r', w')"
    using assms(1,2) sss s(1) by (auto simp: handleRequestQueueItem_def w'_def)
  moreover have "in_sync r' w'"
    by (rule in_sync_frame [OF s(3) _ fr]) (use assms(5) s(7,8) in \<open>simp add: separate_log_def\<close>)
  moreover have "can_store r' w'" using s(4) fr by (simp add: can_store_def emit_frame_def)
  ultimately show ?thesis using s by blast
qed

lemma handle_item_plain_output:
  assumes "getMethodType m \<in> {POST, PUT}" and "cmd (m_config m) = []" and "\<not> store (m_config m)"
  shows "\<exists>w'. handleRequestQueueItem localtime run env m item r w = Inr (0, r, w') \<and>
    stdout_lines w' = stdout_lines w @
      (if printValue (m_config m)
       then map (\<lambda>f. log_prefix localtime (item_time item) r m @ text_of f (item_data item)) (m_fmts m)
       else [])"
  using assms
  by (auto simp: handleRequestQueueItem_def put_loop_plain emit_stdout comp_def)

text \<open>A later block of a body whose first block never arrived is answered 5.00; nothing changes.\<close>

lemma block_without_start:
  assumes "t \<in> {PUT, POST}" and "ld_ok ld" and "ld_size ld \<noteq> ld_total ld" and "ld_offset ld \<noteq> 0"
    and "cache_get_by_pdu A (bs_cache s) q = None"
  shows "handleCoAPRequest A encode stack tv i r q ld t s queue =
    Inr ([SetCode CODE_INTERNAL_ERROR], s, queue)"
  using assms(1) sessionGetData_lost_first [OF assms(2-5), of "[]"]
  by (auto simp: handleCoAPRequest_def)

section \<open>Properties\<close>

text \<open>A resource with a GET and a storing PUT method, an encoder of options and a stack, for the examples.\<close>

definition example_method :: "ResourceMethodType \<Rightarrow> bool \<Rightarrow> resource_method" where
  "example_method t st = \<lparr>m_config = default_method_config\<lparr>method_type := t, format := [''HEX''],
     store := st, printValue := True\<rparr>, m_fmts = [FormatterHex]\<rparr>"

definition lamp :: resource where
  "lamp = example_resource\<lparr>r_methods := [example_method GET False, example_method PUT True],
     r_value := [0x6F, 0x6E]\<rparr>"

definition example_encode :: "nat \<Rightarrow> u32 \<Rightarrow> bytes" where
  "example_encode n v = (if v = 0 then [] else [ucast v])"

definition example_stack :: bytes where
  "example_stack = replicate 256 0xAA"

definition example_time :: timeval where
  "example_time = \<lparr>tv_sec = 0, tv_usec = 250000\<rparr>"

definition example_tm :: "int \<Rightarrow> tm" where
  "example_tm t = \<lparr>tm_year = 124, tm_mon = 10, tm_mday = 29, tm_hour = 8, tm_min = 5, tm_sec = 59\<rparr>"

definition whole_body :: "bytes \<Rightarrow> large_data" where
  "whole_body d = \<lparr>ld_ok = True, ld_size = word_of_nat (length d), ld_offset = 0,
     ld_total = word_of_nat (length d), ld_data = d\<rparr>"

lemma lamp_path: "path_bytes lamp = map byte_of_char ''lamp''"
  by (simp add: path_bytes_def lamp_def example_resource_def getPath_def c_string_id NUL_def)

lemma lamp_methods: "find_method GET lamp = Some 0" "find_method PUT lamp = Some 1"
  by (simp_all add: find_method_def lamp_def example_method_def getMethodType_def upt_rec)

lemma lamp_can_store: "can_store lamp example_world"
  by (simp add: can_store_def example_world_def)

lemma lamp_separate: "separate_log lamp"
  by (simp add: separate_log_def lamp_def example_resource_def)

abbreviation example_queue :: "size_t \<Rightarrow> request_item request_queue" where
  "example_queue n \<equiv> new_RequestQueue (queued (0, 0) [] example_time) n"

lemma example_queue_room:
  "1 < unat n \<Longrightarrow> unat n \<le> 2 ^ 63 \<Longrightarrow>
   rq_wf (example_queue n) \<and> rq_len (example_queue n) < rq_capacity (example_queue n)"
  using rq_contents_length [of "example_queue n"] by (simp add: rq_wf_new)

text \<open>C27: a GET is answered 2.05 with the current value, the path, the format text/plain and the maximum
  age, and the method is queued with that value for its side effects; nothing else changes.\<close>

theorem GET_answered:
  assumes "rq_wf queue" and "rq_len queue < rq_capacity queue" and "find_method GET r = Some j"
    and "length (path_bytes r) < 255" and "length stack = 256"
  shows "\<exists>queue'. handleCoAPRequest A encode stack tv i r q ld GET s queue =
      Inr ([AddOption OPTION_URI_PATH (path_bytes r),
            AddOption OPTION_CONTENT_FORMAT (encode 16 MEDIATYPE_TEXT_PLAIN),
            AddOption OPTION_MAXAGE (encode 16 (getMaxAge r)), AddData (getValue r),
            SetCode CODE_CONTENT], s, queue') \<and>
    rq_contents queue' = rq_contents queue @ [queued (i, j) (getValue r) tv]"
  using handle_GET_request [OF assms, of A encode tv i q ld s]
  unfolding content_response_def by blast

theorem GET_answered_witness:
  "\<exists>queue'. handleCoAPRequest simple_cache_api example_encode example_stack example_time 0 lamp 0
      (whole_body []) GET empty_block_state (example_queue 4) =
      Inr ([AddOption OPTION_URI_PATH (path_bytes lamp),
            AddOption OPTION_CONTENT_FORMAT (example_encode 16 MEDIATYPE_TEXT_PLAIN),
            AddOption OPTION_MAXAGE (example_encode 16 (getMaxAge lamp)), AddData (getValue lamp),
            SetCode CODE_CONTENT], empty_block_state, queue') \<and>
    rq_contents queue' = rq_contents (example_queue 4) @ [queued (0, 0) (getValue lamp) example_time]"
  by (rule GET_answered)
    (use example_queue_room [of 4] in \<open>simp_all add: lamp_methods lamp_path example_stack_def\<close>)

text \<open>C38: when the queue is full, a request (with its body in one piece) is answered 5.00 and dropped:
  neither the queue nor the block buffers change.\<close>

theorem full_queue_rejects:
  assumes "rq_wf queue" and "rq_len queue = rq_capacity queue" and "find_method t r = Some j"
    and "t \<in> {GET, POST, PUT}" and "\<not> ld_ok ld \<or> ld_size ld = ld_total ld"
    and "unat (ld_size ld) \<le> length (ld_data ld)"
  shows "handleCoAPRequest A encode stack tv i r q ld t s queue =
    Inr ([SetCode CODE_INTERNAL_ERROR], s, queue)"
proof -
  have "getMethodType (r_methods r ! j) \<in> {GET, POST, PUT}"
    using find_method_Some [OF assms(3)] assms(4) by simp
  note full = methodHandler_full [OF assms(1,2) this, of encode stack tv "(i, j)" r]
  show ?thesis
    using assms(3,4) sessionGetData_single [OF assms(5,6), of A q "[]" s]
    by (auto simp: handleCoAPRequest_def full)
qed

theorem full_queue_rejects_witness:
  "handleCoAPRequest simple_cache_api example_encode example_stack example_time 0 lamp 0
     (whole_body [1]) PUT empty_block_state (example_queue 1) =
   Inr ([SetCode CODE_INTERNAL_ERROR], empty_block_state, example_queue 1)"
proof -
  have "rq_len (example_queue 1) = 0" using rq_contents_length [of "example_queue 1"] by simp
  then show ?thesis
    by (intro full_queue_rejects) (simp_all add: rq_wf_new lamp_methods whole_body_def)
qed

text \<open>C40: with a path of 255 characters or more, the copy into the 256-byte array of the GET handler is
  not terminated: whether \<open>strlen\<close> then stays in the array depends on the byte the stack happens to
  hold behind the copy.\<close>

theorem long_path_unterminated:
  assumes "255 \<le> length (path_bytes r)" and "length stack = 256" and "stack ! 255 \<noteq> 0"
    and "rq_wf queue" and "rq_len queue < rq_capacity queue" and "getMethodType m = GET"
  shows "methodHandler encode stack tv this r m data queue =
    Inl (Undefined ''strlen reads past the end of the array'')"
  using enqueue_room [OF assms(4,5), of "queued this (getValue r) tv"] assms(6)
    strncpy_long(2) [OF assms(1,2) path_bytes_no_NUL assms(3)]
  by (auto simp: methodHandler_def queued_def path_bytes_def Let_def)

theorem long_path_unterminated_witness:
  "methodHandler example_encode example_stack example_time (0, 0)
     (lamp\<lparr>r_config := default_resource_config\<lparr>resourcePath := replicate 300 (CHR ''a'')\<rparr>\<rparr>)
     (example_method GET False) [] (example_queue 4) =
   Inl (Undefined ''strlen reads past the end of the array'')"
proof -
  have "path_bytes (lamp\<lparr>r_config := default_resource_config\<lparr>resourcePath := replicate n (CHR ''a'')\<rparr>\<rparr>) =
      replicate n (byte_of_char (CHR ''a''))" for n
    by (simp add: path_bytes_def getPath_def c_string_id NUL_def)
  then show ?thesis
    using example_queue_room [of 4]
    by (intro long_path_unterminated)
      (simp_all add: example_stack_def example_method_def getMethodType_def)
qed

text \<open>Of a command's output the value and the log keep the lines before the first empty one, run
  together; no newline is left.\<close>

lemma collected_output:
  "collect_lines out = concat (takeWhile (\<lambda>l. l \<noteq> []) (lines_of out)) \<and>
   CHR 0x0A \<notin> set (collect_lines out)"
proof -
  have "CHR 0x0A \<notin> set l" if "l \<in> set (lines_of out)" for l
    using that
  proof (induction out rule: lines_of.induct)
    case (1 s)
    then show ?case
      by (cases "s = []")
        (auto simp: lines_of.simps [of s] lines_of.simps [of "[]"] dest: set_takeWhileD)
  qed
  then show ?thesis by (auto simp: collect_lines_spec dest: set_takeWhileD)
qed



text \<open>C34: a GET method with a command and \<open>store\<close> refreshes the resource: the output of the command on
  the value that was sent becomes the value of the resource and of its file.\<close>

theorem GET_command_sets_value:
  assumes "getMethodType m = GET" and "store (m_config m)" and "cmd (m_config m) \<noteq> []"
    and "m_fmts m = [f]" and "can_store r w" and "separate_log r"
    and "command_outcome run env r m (text_of f (item_data item)) = Exited st out"
  shows "\<exists>r' w'. handleRequestQueueItem localtime run env m item r w = Inr (0, r', w') \<and>
    r_value r' = map byte_of_char (collect_lines out) \<and> in_sync r' w'"
proof -
  let ?v = "map byte_of_char (collect_lines out)"
  obtain sss where sss: "format_and_run run env r m (item_data item) f [] = Inr (sss @ [collect_lines out])"
    using format_and_run_command [OF assms(3)] assms(7) by (auto simp: Let_def)
  obtain r' w1 where s: "setValue ?v r w = Inr (r', w1)" "r_value r' = ?v" "in_sync r' w1"
      "r_logFile r' = r_logFile r" "r_dataFilePath r' = r_dataFilePath r"
    using setValue_ok [OF assms(5), of ?v] by blast
  define pre where "pre = log_prefix localtime (item_time item) r' m"
  have "handleRequestQueueItem localtime run env m item r w =
      Inr (0, r', fold (emit r' m pre) (sss @ [collect_lines out]) w1)"
    using assms(1,2,4) sss s(1)
    by (simp add: handleRequestQueueItem_def setValue_string_def pre_def)
  moreover have "in_sync r' (fold (emit r' m pre) (sss @ [collect_lines out]) w1)"
    by (rule in_sync_frame [OF s(3) _ emit_frame_fold])
      (use assms(6) s(4,5) in \<open>simp add: separate_log_def\<close>)
  ultimately show ?thesis using s(2) by blast
qed

theorem GET_command_sets_value_witness:
  "let m = example_method GET True\<lparr>m_config := default_method_config\<lparr>method_type := GET,
         format := [''HEX''], store := True, cmd := ''date''\<rparr>\<rparr>
   in \<exists>r' w'. handleRequestQueueItem example_tm (\<lambda>c env stdin t. Exited 0 ''noon'') Map.empty m
        (queued (0, 0) [1] example_time) lamp example_world = Inr (0, r', w') \<and>
      r_value r' = map byte_of_char (collect_lines ''noon'') \<and> in_sync r' w'"
  unfolding Let_def
  by (rule GET_command_sets_value [where f = FormatterHex and st = 0])
    (simp_all add: getMethodType_def example_method_def lamp_can_store lamp_separate command_outcome_def)



text \<open>Every entry starts with a time stamp of 23 characters, \<open>YYYY-MM-DDTHH:MM:SS.mmm\<close>, which just
  fits the 24-byte buffer, for all years with four digits.\<close>

lemma time_stamp_fits:
  assumes "tm_ok (localtime (tv_sec tv))" and "tv_usec tv < 1000000"
  shows "time_stamp localtime tv =
      iso_time (localtime (tv_sec tv)) @ ''.'' @ zero_padded 3 (tv_usec tv div 1000) \<and>
    length (time_stamp localtime tv) = 23"
proof -
  have "tv_usec tv div 1000 < 1000" using assms(2) by (simp add: less_mult_imp_div_less)
  then show ?thesis
    using iso_time_length [OF assms(1)] zero_padded_length_3 [of "tv_usec tv div 1000"]
    by (simp add: time_stamp_def strftime_fit_def snprintf_fit_def)
qed

lemma time_stamp_fits_example:
  "time_stamp example_tm example_time = ''2024-11-29T08:05:59.250'' \<and>
   length (time_stamp example_tm example_time) = 23"
proof -
  have "iso_time (example_tm (tv_sec example_time)) @ ''.'' @
      zero_padded 3 (tv_usec example_time div 1000) = ''2024-11-29T08:05:59.250''"
    by (simp add: example_tm_def example_time_def iso_time_def zero_padded_def year_string_def
        digits.simps digit_chars digit_chars(1) [simplified])
  moreover have "tm_ok (example_tm (tv_sec example_time))" by (simp add: example_tm_def tm_ok_def)
  moreover have "tv_usec example_time < 1000000" by (simp add: example_time_def)
  ultimately show ?thesis using time_stamp_fits [of example_tm example_time] by metis
qed

end
