(* ===== verification/Server.thy ===== *)
theory Server
  imports Requests Templates
begin

text \<open>
  The server object (\<open>src/CoAPServer.cpp\<close>): construction from the configuration, \<open>init\<close> with the
  address resolution and the TLS setup, the requests to dynamic resources, the periodic value update
  and the log line of libcoap messages.
\<close>

section \<open>State\<close>

text \<open>
  The DTLS settings: the names of the key files, and the structure \<open>coap_dtls_pki_t\<close> as far as the
  server fills it in. The callbacks with their arguments are functions; the members that
  \<open>setupSecurity\<close> leaves as \<open>malloc\<close> returned them are not listed.
\<close>

record pem_key =
  public_cert :: string
  private_key :: string
  ca_file :: string

record pki_settings =
  verify_peer_cert :: nat
  check_common_ca :: nat
  allow_self_signed :: nat
  allow_expired_certs :: nat
  cert_chain_validation :: nat
  cert_chain_verify_depth :: nat
  check_cert_revocation :: nat
  allow_no_crl :: nat
  allow_expired_crl :: nat
  is_rpk_not_cert :: nat
  validate_cn_call_back :: "string \<Rightarrow> bytes \<Rightarrow> nat \<Rightarrow> int \<Rightarrow> int"
  validate_sni_call_back :: "string \<Rightarrow> pem_key \<Rightarrow> pem_key"
  pki_key :: pem_key

text \<open>
  The server with the request queue, the libcoap cache with its buffers and the world it acts on.
  \<open>sv_pki\<close> is what \<open>dtls_pki\<close> points to.
\<close>

record 'c server =
  sv_endpoint :: EndpointConfig
  sv_resources :: "resource list"
  sv_dynamic :: "ResourceConfig list"
  sv_pki :: "pki_settings option"
  sv_queue :: "request_item request_queue"
  sv_blocks :: "'c block_state"
  sv_world :: world

section \<open>Construction\<close>

text \<open>The loop over the configured resources.\<close>

fun add_resources :: "ResourceConfig list \<Rightarrow> 'c server \<Rightarrow> 'c server res" where
  "add_resources [] sv = Inr sv"
| "add_resources (it # its) sv =
     (if dynamic it then add_resources its (sv\<lparr>sv_dynamic := sv_dynamic sv @ [it]\<rparr>)
      else ebind (new_Resource it (logDir (sv_endpoint sv)) (sv_world sv)) (\<lambda>(r, w).
             add_resources its (sv\<lparr>sv_resources := sv_resources sv @ [r], sv_world := w\<rparr>)))"

text \<open>\<open>dtls_ok\<close> and \<open>tls_ok\<close> are \<open>coap_dtls_is_supported()\<close> and \<open>coap_tls_is_supported()\<close>.\<close>

definition global_log_path :: "EndpointConfig \<Rightarrow> string" where
  "global_log_path ep =
     (if logDir ep \<noteq> [] then logDir ep @ [slash] @ globalLogFile ep else globalLogFile ep)"

definition new_CoAPServer ::
  "bool \<Rightarrow> bool \<Rightarrow> Config \<Rightarrow> request_item request_queue \<Rightarrow> 'c block_state \<Rightarrow> world \<Rightarrow> 'c server res" where
  "new_CoAPServer dtls_ok tls_ok config queue blocks w =
     (let ep = config_endpoint config;
          path = global_log_path ep
      in if \<not> can_write w path
         then Inl (RuntimeError (''Failed to open global log file `'' @ path @ [CHR 0x60]))
         else if transport ep = DTLS \<and> \<not> dtls_ok
         then Inl (RuntimeError
           ''ERROR: Configured for DTLS, but libcoap was not compiled with DTLS support!'')
         else if transport ep = TLS \<and> \<not> tls_ok
         then Inl (RuntimeError
           ''ERROR: Configured for TLS, but libcoap was not compiled with TLS support!'')
         else add_resources (config_resources config)
           \<lparr>sv_endpoint = ep, sv_resources = [], sv_dynamic = [], sv_pki = None, sv_queue = queue,
            sv_blocks = blocks, sv_world = open_append path w\<rparr>)"

section \<open>Initialisation\<close>

datatype address_family = AF_INET | AF_INET6 | AF_OTHER

record addr_info =
  ai_family :: address_family
  ai_addrlen :: nat

text \<open>
  What initialisation asks of the host and of libcoap: \<open>getaddrinfo\<close> (its error code and list), the
  calls that create the context and the endpoint and set the keys, \<open>stat\<close> and \<open>malloc\<close>.
\<close>

record host_api =
  getaddrinfo :: "string \<Rightarrow> string \<Rightarrow> int \<times> addr_info list"
  new_context :: bool
  new_endpoint :: "nat \<Rightarrow> EndpointTransport \<Rightarrow> bool"
  stat_ok :: "string \<Rightarrow> bool"
  malloc_ok :: bool
  set_pki :: "bool \<Rightarrow> pki_settings \<Rightarrow> bool"

text \<open>The result of \<open>resolveAddress\<close> and the size it leaves in \<open>addr\<close>.\<close>

definition resolveAddress :: "host_api \<Rightarrow> string \<Rightarrow> string \<Rightarrow> int \<times> nat" where
  "resolveAddress H host service =
     (let (error, infos) = getaddrinfo H host service
      in if error \<noteq> 0 then (error, 0)
         else (case find (\<lambda>a. ai_family a = AF_INET \<or> ai_family a = AF_INET6) infos of
                 Some a \<Rightarrow> (int (ai_addrlen a), ai_addrlen a)
               | None \<Rightarrow> (0, 0)))"

text \<open>
  \<open>dtlsValidateCNCallback\<close> (common name, certificate, depth, result of the validation so far) and
  \<open>dtlsValidateSNICallback\<close> (server name, configured key).
\<close>

definition dtlsValidateCNCallback :: "string \<Rightarrow> bytes \<Rightarrow> nat \<Rightarrow> int \<Rightarrow> int" where
  "dtlsValidateCNCallback cn asn1_public_cert depth validated = 1"

definition dtlsValidateSNICallback :: "string \<Rightarrow> pem_key \<Rightarrow> pem_key" where
  "dtlsValidateSNICallback sni arg = arg"

definition pki_setup :: "SecurityConfig \<Rightarrow> pki_settings" where
  "pki_setup sec = \<lparr>verify_peer_cert = 0, check_common_ca = 1, allow_self_signed = 1,
     allow_expired_certs = 1, cert_chain_validation = 1, cert_chain_verify_depth = 2,
     check_cert_revocation = 1, allow_no_crl = 1, allow_expired_crl = 1, is_rpk_not_cert = 0,
     validate_cn_call_back = dtlsValidateCNCallback, validate_sni_call_back = dtlsValidateSNICallback,
     pki_key = \<lparr>public_cert = cert sec, private_key = key sec, ca_file = ca sec\<rparr>\<rparr>"

text \<open>
  \<open>setupSecurity\<close>: \<open>pki\<close> is \<open>dtls_pki\<close> before and in the result after it; the first argument of
  \<open>set_pki\<close> says whether there is a context.
\<close>

definition setupSecurity ::
  "host_api \<Rightarrow> SecurityConfig \<Rightarrow> bool \<Rightarrow> pki_settings option \<Rightarrow> int \<times> pki_settings option" where
  "setupSecurity H sec ctx pki =
     (if key sec = [] then (-1, pki)
      else if cert sec = [] then (-1, pki)
      else if \<not> malloc_ok H then (-1, None)
      else let p = pki_setup sec
        in if \<not> stat_ok H (public_cert (pki_key p)) then (-1, Some p)
           else if \<not> stat_ok H (private_key (pki_key p)) then (-1, Some p)
           else if \<not> stat_ok H (private_key (pki_key p)) then (-1, Some p)
           else if \<not> set_pki H ctx p then (-1, Some p)
           else (0, Some p))"

text \<open>The loop that attaches the resources; \<open>1\<close> is the \<open>break\<close>.\<close>

fun attach_all :: "resource list \<Rightarrow> world \<Rightarrow> (int \<times> resource list \<times> world) res" where
  "attach_all [] w = Inr (0, [], w)"
| "attach_all (r # rs) w =
     ebind (attach r w) (\<lambda>(ret, r', w').
       if ret \<noteq> 0 then Inr (1, r' # rs, w')
       else ebind (attach_all rs w') (\<lambda>(ret', rs', w''). Inr (ret', r' # rs', w'')))"

definition unknown_calls :: "coap_call list" where
  "unknown_calls = [UnknownInit PUT, RegisterUnknown POST, RegisterUnknown GET, AddUnknown]"

definition ignored_cache_options :: "string list" where
  "ignored_cache_options = [''COAP_OPTION_BLOCK1'', ''COAP_OPTION_BLOCK1'', ''COAP_OPTION_MAXAGE'',
     ''COAP_OPTION_IF_NONE_MATCH'']"

definition init :: "host_api \<Rightarrow> 'c server \<Rightarrow> (int \<times> 'c server) res" where
  "init H sv =
     (let ep = sv_endpoint sv;
          (resolved, addr_size) = resolveAddress H (address ep) (port ep);
          ctx = (resolved \<noteq> 0 \<and> new_context H);
          ret = (if ctx then 0 else 1 :: int);
          (failed, pki) = (if transport ep = DTLS \<or> transport ep = TLS
                           then setupSecurity H (security ep) ctx (sv_pki sv) else (0, sv_pki sv));
          ret1 = (if failed \<noteq> 0 then 1 else ret);
          ret2 = (if ret1 = 0 \<and> \<not> new_endpoint H addr_size (transport ep) then 1 else ret1);
          sv1 = sv\<lparr>sv_pki := pki\<rparr>
      in if ret2 \<noteq> 0 then Inr (ret2, sv1)
         else ebind (attach_all (sv_resources sv1) (sv_world sv1)) (\<lambda>(ret3, rs, w).
           if ret3 \<noteq> 0 then Inr (ret3, sv1\<lparr>sv_resources := rs, sv_world := w\<rparr>)
           else let w1 = (if sv_dynamic sv \<noteq> [] then fold call unknown_calls w else w);
                    w2 = fold call [SetBlockModeUseLibcoap, CacheIgnoreOptions ignored_cache_options,
                           SetLogHandler] w1
                in Inr (0, sv1\<lparr>sv_resources := rs, sv_world := w2\<rparr>)))"

section \<open>Dynamic resources\<close>

text \<open>
  \<open>_regexReplace\<close>: \<open>sm\<close> are the sub-matches (number 0 is the whole match); one that does not exist
  reads as the empty string. The loop is the one of \<open>_TemplateReplace\<close> with other error cases.
\<close>

definition sub_match :: "string list \<Rightarrow> size_t \<Rightarrow> string" where
  "sub_match sm idx = (if unat idx < length sm then sm ! unat idx else [])"

function regex_loop :: "string \<Rightarrow> string list \<Rightarrow> nat \<Rightarrow> string \<Rightarrow> string" where
  "regex_loop inp sm i out =
     (if i < length inp then
        if char_at inp i = CHR ''$'' then
          if char_at inp (i + 1) = CHR ''$'' then
            regex_loop inp sm (i + 1 + 1) (out @ [char_at inp (i + 1)])
          else if isdigit (char_at inp (i + 1)) then
            (case digits_loop inp (i + 1) 0 of (idx, j) \<Rightarrow>
               if length sm < unat idx then []
               else regex_loop inp sm (j - 1 + 1) (out @ sub_match sm idx))
          else []
        else regex_loop inp sm (i + 1) (out @ [char_at inp i])
      else out)"
  by pat_completeness auto
termination
proof (relation "measure (\<lambda>(inp, sm, i, out). length inp - i)", goal_cases)
  case 3
  then show ?case by (auto dest!: sym [of "(_, _)"] digits_loop_advances(1) [rotated])
qed auto

declare regex_loop.simps [simp del]

definition regexReplace :: "string \<Rightarrow> string list \<Rightarrow> string" where
  "regexReplace inp sm = regex_loop inp sm 0 []"

text \<open>
  \<open>regex_match p uri\<close> is \<open>std::regex_match\<close> with the expression \<open>p\<close>: it throws when \<open>p\<close> is not an
  expression, otherwise it gives the sub-matches or no match. The engine itself is not modelled.
\<close>

type_synonym regex_matcher = "string \<Rightarrow> string \<Rightarrow> string list option res"

definition instantiate_config :: "ResourceConfig \<Rightarrow> string \<Rightarrow> string list \<Rightarrow> ResourceConfig" where
  "instantiate_config it uri sm = it\<lparr>resourcePath := uri,
     resourceName := regexReplace (resourceName it) sm,
     logFile := regexReplace (logFile it) sm,
     dataFile := regexReplace (dataFile it) sm\<rparr>"

text \<open>
  The loop of \<open>handleDynamicRequest\<close> over the dynamic resources; \<open>forward\<close> is the call of
  \<open>handleCoAPRequest\<close> on the new resource, which is the last of the list.
\<close>

fun dynamic_loop ::
  "regex_matcher \<Rightarrow> ('c server \<Rightarrow> (pdu_call list \<times> 'c server) res) \<Rightarrow> string \<Rightarrow> ResourceMethodType \<Rightarrow>
   ResourceConfig list \<Rightarrow> 'c server \<Rightarrow> (pdu_call list \<times> 'c server) res" where
  "dynamic_loop rx forward uri method [] sv = Inr ([SetCode CODE_NOT_FOUND], sv)"
| "dynamic_loop rx forward uri method (it # its) sv =
     ebind (rx (resourcePath it) uri) (\<lambda>match.
       case match of
         None \<Rightarrow> dynamic_loop rx forward uri method its sv
       | Some sm \<Rightarrow>
           if \<not> list_ex (\<lambda>mi. method_type mi = method) (methods it)
           then Inr ([SetCode CODE_NOT_ALLOWED], sv)
           else
             ebind (new_Resource (instantiate_config it uri sm) (logDir (sv_endpoint sv)) (sv_world sv))
               (\<lambda>(r, w).
             ebind (attach r w) (\<lambda>(ret, r', w').
               if ret \<noteq> 0 then Inr ([SetCode CODE_INTERNAL_ERROR], sv\<lparr>sv_world := w'\<rparr>)
               else forward (sv\<lparr>sv_resources := sv_resources sv @ [r'], sv_world := w'\<rparr>))))"

text \<open>A request to resource number \<open>i\<close>: \<open>coapHandlerX\<close> with its user data.\<close>

definition request_to ::
  "('c, 'q, 'e) cache_api \<Rightarrow> (nat \<Rightarrow> u32 \<Rightarrow> bytes) \<Rightarrow> bytes \<Rightarrow> timeval \<Rightarrow> nat \<Rightarrow> 'q \<Rightarrow> large_data \<Rightarrow>
   ResourceMethodType \<Rightarrow> 'c server \<Rightarrow> (pdu_call list \<times> 'c server) res" where
  "request_to A encode stack tv i q ld method sv =
     ebind (load_at (sv_resources sv) i) (\<lambda>r.
     ebind (handleCoAPRequest A encode stack tv i r q ld method (sv_blocks sv) (sv_queue sv))
       (\<lambda>(calls, blocks, queue). Inr (calls, sv\<lparr>sv_blocks := blocks, sv_queue := queue\<rparr>)))"

text \<open>\<open>handleDynamicRequest\<close>: \<open>uri\<close> is the result of \<open>coap_get_uri_path\<close>.\<close>

definition handleDynamicRequest ::
  "regex_matcher \<Rightarrow> ('c, 'q, 'e) cache_api \<Rightarrow> (nat \<Rightarrow> u32 \<Rightarrow> bytes) \<Rightarrow> bytes \<Rightarrow> timeval \<Rightarrow> 'q \<Rightarrow>
   large_data \<Rightarrow> string option \<Rightarrow> ResourceMethodType \<Rightarrow> 'c server \<Rightarrow> (pdu_call list \<times> 'c server) res" where
  "handleDynamicRequest rx A encode stack tv q ld uri_path method sv =
     (case uri_path of
        None \<Rightarrow> Inr ([SetCode CODE_NOT_FOUND], sv)
      | Some u \<Rightarrow>
          dynamic_loop rx
            (\<lambda>sv'. request_to A encode stack tv (length (sv_resources sv' ) - 1) q ld method sv')
            (c_string u) method (sv_dynamic sv) sv)"

section \<open>Updates and messages\<close>

definition update_all :: "resource list \<Rightarrow> world \<Rightarrow> resource list \<times> world" where
  "update_all rs w = fold (\<lambda>r (rs, w). let (r', w') = valueUpdate r w in (rs @ [r'], w')) rs ([], w)"

definition server_valueUpdate :: "'c server \<Rightarrow> 'c server" where
  "server_valueUpdate sv = (let (rs, w) = update_all (sv_resources sv) (sv_world sv)
     in sv\<lparr>sv_resources := rs, sv_world := w\<rparr>)"

text \<open>\<open>CoAPServer::logHandler\<close>: \<open>None\<close> when no global log has been set.\<close>

definition logHandler ::
  "(int \<Rightarrow> tm) \<Rightarrow> timeval \<Rightarrow> string option \<Rightarrow> nat \<Rightarrow> string \<Rightarrow> world \<Rightarrow> world res" where
  "logHandler localtime tv global_log level message w =
     (case global_log of
        None \<Rightarrow> Inl (RuntimeError ''CoAPServer::logHandler called, but _globalCoAPLog is NULL!'')
      | Some p \<Rightarrow>
          Inr (append_file p (map byte_of_char (time_stamp localtime tv @ '' | libcoap['' @
            digits 10 False level @ '']: '' @ message)) w))"

section \<open>The substitution in dynamic resources\<close>

text \<open>
  What \<open>_regexReplace\<close> computes: the pieces of the template with the sub-matches put in, or the
  empty string as soon as one piece is malformed or refers past the sub-matches.
\<close>

definition regex_piece :: "string list \<Rightarrow> piece \<Rightarrow> string option" where
  "regex_piece sm p = (case p of
       Literal c \<Rightarrow> Some [c]
     | Argument idx \<Rightarrow> if length sm < unat idx then None else Some (sub_match sm idx)
     | Malformed \<Rightarrow> None)"

definition regex_pieces :: "string list \<Rightarrow> piece list \<Rightarrow> string option" where
  "regex_pieces sm ps = map_option concat (those (map (regex_piece sm) ps))"

definition regex_text :: "string \<Rightarrow> string list \<Rightarrow> string" where
  "regex_text inp sm = (case regex_pieces sm (pieces inp) of None \<Rightarrow> [] | Some t \<Rightarrow> t)"

lemma regex_pieces_Nil [simp]: "regex_pieces sm [] = Some []"
  by (simp add: regex_pieces_def)

lemma regex_pieces_Cons:
  "regex_pieces sm (p # ps) = (case regex_piece sm p of
       None \<Rightarrow> None | Some t \<Rightarrow> map_option (\<lambda>r. t @ r) (regex_pieces sm ps))"
  by (simp add: regex_pieces_def option.map_comp comp_def split: option.split)

lemma regex_loop_text:
  "regex_loop inp sm i out =
     (case regex_pieces sm (pieces (drop i inp)) of None \<Rightarrow> [] | Some t \<Rightarrow> out @ t)"
proof (induction inp sm i out rule: regex_loop.induct)
  case (1 inp sm i out)
  note unfold = regex_loop.simps [of inp sm i out]
  show ?case
  proof (cases "i < length inp")
    case False
    then show ?thesis by (simp add: unfold)
  next
    case True
    consider (lit) "char_at inp i \<noteq> CHR ''$''"
      | (dollar) "char_at inp i = CHR ''$''" "char_at inp (i + 1) = CHR ''$''"
      | (arg) "char_at inp i = CHR ''$''" "char_at inp (i + 1) \<noteq> CHR ''$''"
          "isdigit (char_at inp (i + 1))"
      | (bad) "char_at inp i = CHR ''$''" "char_at inp (i + 1) \<noteq> CHR ''$''"
          "\<not> isdigit (char_at inp (i + 1))"
      by blast
    then show ?thesis
    proof cases
      case lit
      show ?thesis
        unfolding pieces_at_literal [OF True lit] regex_pieces_Cons
        using lit True "1.IH"(3) [OF True]
        by (simp add: unfold regex_piece_def split: option.split)
    next
      case dollar
      show ?thesis
        unfolding pieces_at_dollar [OF True dollar] regex_pieces_Cons
        using dollar True "1.IH"(1) [OF True]
        by (simp add: unfold regex_piece_def split: option.split)
    next
      case arg
      obtain idx j where loop: "digits_loop inp (i + 1) 0 = (idx, j)" by fastforce
      note p = pieces_at_argument [OF True arg loop]
      show ?thesis
        unfolding p [THEN conjunct1] regex_pieces_Cons
        using arg True p "1.IH"(2) [OF True arg(1,2,3) loop [symmetric]]
        by (simp add: unfold loop loop [simplified] regex_piece_def split: option.split)
    next
      case bad
      then show ?thesis
        unfolding pieces_at_malformed [OF True bad] regex_pieces_Cons
        using True by (simp add: unfold regex_piece_def)
    qed
  qed
qed

lemma regexReplace_regex_text: "regexReplace inp sm = regex_text inp sm"
  by (simp add: regexReplace_def regex_loop_text regex_text_def split: option.split)

section \<open>Requests to dynamic resources\<close>

text \<open>The first configured resource whose expression matches decides.\<close>

definition no_match :: "regex_matcher \<Rightarrow> string \<Rightarrow> ResourceConfig \<Rightarrow> bool" where
  "no_match rx uri it \<longleftrightarrow> rx (resourcePath it) uri = Inr None"

lemma dynamic_loop_skip:
  "list_all (no_match rx uri) pre \<Longrightarrow>
   dynamic_loop rx forward uri method (pre @ its) sv = dynamic_loop rx forward uri method its sv"
  by (induction pre) (simp_all add: no_match_def)

definition has_method :: "ResourceMethodType \<Rightarrow> ResourceConfig \<Rightarrow> bool" where
  "has_method t it \<longleftrightarrow> t \<in> set (map method_type (methods it))"

lemma dynamic_loop_match:
  assumes "rx (resourcePath it) uri = Inr (Some sm)"
  shows "dynamic_loop rx forward uri method (it # its) sv =
    (if \<not> has_method method it then Inr ([SetCode CODE_NOT_ALLOWED], sv)
     else
       ebind (new_Resource (instantiate_config it uri sm) (logDir (sv_endpoint sv)) (sv_world sv))
         (\<lambda>(r, w).
       ebind (attach r w) (\<lambda>(ret, r', w').
         if ret \<noteq> 0 then Inr ([SetCode CODE_INTERNAL_ERROR], sv\<lparr>sv_world := w'\<rparr>)
         else forward (sv\<lparr>sv_resources := sv_resources sv @ [r'], sv_world := w'\<rparr>))))"
  using assms by (auto simp: has_method_def list_ex_iff)

declare dynamic_loop.simps(2) [simp del]

text \<open>The configuration of an instance is as good as that of its template.\<close>

lemma instantiate_config_keeps [simp]:
  "methods (instantiate_config it uri sm) = methods it"
  "resourcePath (instantiate_config it uri sm) = uri"
  "initialValue (instantiate_config it uri sm) = initialValue it"
  "maxAge (instantiate_config it uri sm) = maxAge it"
  "observable (instantiate_config it uri sm) = observable it"
  by (simp_all add: instantiate_config_def)

lemma instantiate_config_ok:
  "resource_config_ok it \<Longrightarrow> resource_config_ok (instantiate_config it uri sm)"
  by (simp add: resource_config_ok_def)

section \<open>Resources of a checked configuration\<close>

lemma built_types:
  "list_all2 method_built cs ms \<Longrightarrow> map getMethodType ms = map method_type cs"
  by (induction rule: list_all2_induct) (auto simp: method_built_def getMethodType_def)

lemma new_Resource_servable:
  assumes "new_Resource cfg dir w = Inr (r, w')" and "resource_config_ok cfg"
  shows "servable r"
proof -
  have "map getMethodType (r_methods r) = map method_type (methods cfg)"
    by (rule built_types [OF new_Resource_result(2) [OF assms(1)]])
  then have "getMethodType ` set (r_methods r) = method_type ` set (methods cfg)"
    by (metis list.set_map)
  moreover have "method_type ` set (methods cfg) \<subseteq> {GET, POST, PUT}"
    using assms(2) by (auto simp: resource_config_ok_def list_all_iff method_config_ok_def)
  ultimately show ?thesis by (auto simp: servable_def)
qed

lemma add_resources_split:
  "add_resources its sv = Inr sv' \<Longrightarrow>
     map r_config (sv_resources sv') =
       map r_config (sv_resources sv) @ filter (\<lambda>c. \<not> dynamic c) its \<and>
     sv_dynamic sv' = sv_dynamic sv @ filter dynamic its \<and> sv_queue sv' = sv_queue sv \<and>
     sv_blocks sv' = sv_blocks sv \<and>
     (list_all resource_config_ok its \<longrightarrow> list_all servable (sv_resources sv) \<longrightarrow>
        list_all servable (sv_resources sv'))"
proof (induction its arbitrary: sv)
  case (Cons it its)
  show ?case
  proof (cases "dynamic it")
    case True
    then show ?thesis using Cons.IH [of "sv\<lparr>sv_dynamic := sv_dynamic sv @ [it]\<rparr>"] Cons.prems by simp
  next
    case False
    then obtain r w where r: "new_Resource it (logDir (sv_endpoint sv)) (sv_world sv) = Inr (r, w)"
        "add_resources its (sv\<lparr>sv_resources := sv_resources sv @ [r], sv_world := w\<rparr>) = Inr sv'"
      using Cons.prems by (auto simp: res_simps)
    show ?thesis
      using Cons.IH [OF r(2)] False new_Resource_result(1) [OF r(1)] new_Resource_servable [OF r(1)]
      by auto
  qed
qed simp

text \<open>Attaching such a resource never takes the error return.\<close>

lemma attach_servable_ret:
  "servable r \<Longrightarrow> attach r w = Inr (ret, r', w') \<Longrightarrow> ret = 0"
  by (auto simp: attach_servable Let_def res_simps split: if_splits prod.splits)

text \<open>A request with a block of a body that is not complete, and one that completes it.\<close>

lemma request_more_blocks:
  assumes "sessionGetData A q ld [] (sv_blocks sv) = Inr (0, [], s')" and "i < length (sv_resources sv)"
  shows "request_to A encode stack tv i q ld PUT sv =
    Inr ([SetCode CODE_CONTINUE], sv\<lparr>sv_blocks := s', sv_queue := sv_queue sv\<rparr>)"
  using assms by (simp add: request_to_def handleCoAPRequest_def)

lemma request_last_block:
  assumes "sessionGetData A q ld [] (sv_blocks sv) = Inr (1, d, s')" and "i < length (sv_resources sv)"
    and "find_method PUT (sv_resources sv ! i) = Some j"
    and "rq_wf (sv_queue sv)" and "rq_len (sv_queue sv) < rq_capacity (sv_queue sv)"
  shows "\<exists>queue. request_to A encode stack tv i q ld PUT sv =
      Inr ([SetCode CODE_OK, SetTypeAck], sv\<lparr>sv_blocks := s', sv_queue := queue\<rparr>) \<and> rq_wf queue \<and>
    rq_contents queue = rq_contents (sv_queue sv) @ [queued (i, j) d tv] \<and>
    rq_capacity queue = rq_capacity (sv_queue sv)"
  using handle_body_request [OF assms(4,5) _ assms(1) assms(3), of encode stack tv i] assms(2)
  by (auto simp: request_to_def)

section \<open>Value updates\<close>

lemma valueUpdate_files [simp]:
  "files (snd (valueUpdate r w)) = files w" "can_read (snd (valueUpdate r w)) = can_read w"
  by (simp_all add: valueUpdate_def Let_def split: option.splits)

lemma valueUpdate_cong:
  "files w = files w' \<Longrightarrow> can_read w = can_read w' \<Longrightarrow>
   fst (valueUpdate r w) = fst (valueUpdate r w')"
  by (simp add: valueUpdate_def Let_def split: option.splits)

lemma update_all_acc:
  "fold (\<lambda>r (rs, w). let (r', w') = valueUpdate r w in (rs @ [r'], w')) rs (acc, w) =
     (acc @ fst (update_all rs w), snd (update_all rs w))"
proof (induction rs arbitrary: acc w)
  case (Cons r rs)
  obtain r' w' where u: "valueUpdate r w = (r', w')" by fastforce
  show ?case
    using Cons [of "acc @ [r']" w'] Cons [of "[r']" w'] by (simp add: update_all_def u)
qed (simp add: update_all_def)

lemma update_all_Cons:
  "update_all (r # rs) w =
     (let (r', w') = valueUpdate r w; (rs', w'') = update_all rs w' in (r' # rs', w''))"
proof -
  obtain r' w' where u: "valueUpdate r w = (r', w')" by fastforce
  show ?thesis
    using update_all_acc [of rs "[r']" w'] by (simp add: update_all_def u split_beta)
qed

lemma update_all_map:
  "fst (update_all rs w) = map (\<lambda>r. fst (valueUpdate r w)) rs \<and>
   files (snd (update_all rs w)) = files w \<and> can_read (snd (update_all rs w)) = can_read w"
proof (induction rs arbitrary: w)
  case (Cons r rs)
  let ?w = "snd (valueUpdate r w)"
  have "fst (valueUpdate x ?w) = fst (valueUpdate x w)" for x
    by (rule valueUpdate_cong) simp_all
  then show ?case
    using Cons [of ?w] by (simp add: update_all_Cons split_beta)
qed (simp add: update_all_def)

text \<open>What one resource holds after an update, by the state of its data file.\<close>

definition updated_value :: "resource \<Rightarrow> world \<Rightarrow> bytes" where
  "updated_value r w =
     (case files w (r_dataFilePath r) of
        Some f \<Rightarrow> if r_dataFilePath r \<noteq> [] \<and> r_dataFileWriteTime r < file_time f then file_data f
                  else r_value r
      | None \<Rightarrow> r_value r)"

lemma valueUpdate_value:
  "can_read w (r_dataFilePath r) \<Longrightarrow> r_value (fst (valueUpdate r w)) = updated_value r w"
  by (auto simp: valueUpdate_def updated_value_def Let_def split: option.splits)

lemma valueUpdate_idem:
  "valueUpdate (fst (valueUpdate r w)) (snd (valueUpdate r w)) = valueUpdate r w"
  by (auto simp: valueUpdate_def Let_def split: option.splits)

section \<open>Initialisation\<close>

lemma attach_all_ok:
  "\<forall>r \<in> set rs. servable r \<Longrightarrow> attach_all rs w = Inr (ret, rs', w') \<Longrightarrow>
   ret = 0 \<and> length rs' = length rs"
proof (induction rs arbitrary: w ret rs' w')
  case (Cons r rs)
  then obtain ret1 r1 w1 where a: "attach r w = Inr (ret1, r1, w1)" "ret1 = 0"
    using attach_servable_ret by (fastforce simp: res_simps)
  with Cons show ?case by (fastforce simp: res_simps)
qed simp

lemma init_plain:
  assumes "resolveAddress H (address (sv_endpoint sv)) (port (sv_endpoint sv)) = (res, n)"
    and "res \<noteq> 0" and "new_context H" and "transport (sv_endpoint sv) \<notin> {DTLS, TLS}"
    and "new_endpoint H n (transport (sv_endpoint sv))"
    and "attach_all (sv_resources sv) (sv_world sv) = Inr (0, rs, w)"
  shows "\<exists>sv'. init H sv = Inr (0, sv') \<and> sv_queue sv' = sv_queue sv"
  using assms by (simp add: init_def Let_def)

text \<open>After an update no resource has a file newer than what it has seen, so the next one does nothing.\<close>

lemma valueUpdate_settled:
  "files w2 = files w \<Longrightarrow>
   valueUpdate (fst (valueUpdate r w)) w2 = (fst (valueUpdate r w), w2)"
  by (auto simp: valueUpdate_def Let_def split: option.splits)

lemma update_all_settled:
  "files w2 = files w \<Longrightarrow>
   update_all (map (\<lambda>r. fst (valueUpdate r w)) rs) w2 = (map (\<lambda>r. fst (valueUpdate r w)) rs, w2)"
  by (induction rs) (simp_all add: update_all_Cons valueUpdate_settled, simp add: update_all_def)

lemma server_valueUpdate_idem: "server_valueUpdate (server_valueUpdate sv) = server_valueUpdate sv"
proof -
  obtain rs w where u: "update_all (sv_resources sv) (sv_world sv) = (rs, w)" by fastforce
  then have "rs = map (\<lambda>r. fst (valueUpdate r (sv_world sv))) (sv_resources sv)"
    and "files w = files (sv_world sv)"
    using update_all_map [of "sv_resources sv" "sv_world sv"] by auto
  then have "update_all rs w = (rs, w)" using update_all_settled by simp
  then show ?thesis by (simp add: server_valueUpdate_def u)
qed

section \<open>Properties\<close>

text \<open>C32: the substitution in the name, log file and data file of a dynamic resource puts the sub-matches
  of the request's path into the template, \<open>$0\<close> being the whole match, and gives the empty string
  for a template that is malformed or refers past the sub-matches.\<close>

theorem regexReplace_language:
  "regexReplace inp sm =
     (case those (map (regex_piece sm) (pieces inp)) of None \<Rightarrow> [] | Some ts \<Rightarrow> concat ts)"
  by (simp add: regexReplace_regex_text regex_text_def regex_pieces_def split: option.split)

text \<open>A server with a dynamic resource, and a matcher for its expression, for the examples.\<close>

definition sensors :: ResourceConfig where
  "sensors = default_resource_config\<lparr>resourcePath := ''sensor/(.*)'', initialValue := ''new'',
     dataFile := ''$1.dat'', dynamic := True,
     methods := [default_method_config\<lparr>method_type := PUT, format := [''HEX''], store := True\<rparr>]\<rparr>"

definition example_server :: "simple_cache server" where
  "example_server = \<lparr>sv_endpoint = default_endpoint_config, sv_resources = [lamp],
     sv_dynamic = [sensors], sv_pki = None, sv_queue = example_queue 4, sv_blocks = empty_block_state,
     sv_world = example_world\<rparr>"

definition prefix_matcher :: regex_matcher where
  "prefix_matcher ex uri =
     (let pre = takeWhile (\<lambda>c. c \<noteq> CHR ''('') ex
      in Inr (if take (length pre) uri = pre then Some [uri, drop (length pre) uri] else None))"

text \<open>C26: a request that no expression matches is answered 4.04, one whose first matching resource does
  not have the method 4.05; the server does not change.\<close>

theorem dynamic_request_rejected:
  assumes "sv_dynamic sv = pre @ its" and "list_all (no_match rx (c_string u)) pre"
    and "its = [] \<or> rx (resourcePath (hd its)) (c_string u) = Inr (Some sm) \<and>
      \<not> has_method method (hd its)"
  shows "handleDynamicRequest rx A encode stack tv q ld (Some u) method sv =
    Inr ([SetCode (if its = [] then CODE_NOT_FOUND else CODE_NOT_ALLOWED)], sv)"
proof (cases its)
  case Nil
  then show ?thesis
    using dynamic_loop_skip [OF assms(2), of _ _ "[]"] assms(1)
    by (simp add: handleDynamicRequest_def)
next
  case (Cons it rest)
  then show ?thesis
    using assms(1,3)
    by (simp add: handleDynamicRequest_def dynamic_loop_skip [OF assms(2)]
        dynamic_loop_match [of rx it "c_string u" sm])
qed

theorem dynamic_request_rejected_witness:
  "handleDynamicRequest prefix_matcher simple_cache_api example_encode example_stack example_time 0
     (whole_body [1]) (Some ''sensor/7'') GET example_server = Inr ([SetCode CODE_NOT_ALLOWED], example_server)"
  using dynamic_request_rejected [of example_server "[]" "[sensors]" prefix_matcher "''sensor/7''"
      "[''sensor/7'', ''7'']" GET simple_cache_api example_encode example_stack example_time 0
      "whole_body [1]"]
  by (simp add: example_server_def prefix_matcher_def sensors_def has_method_def c_string_def NUL_def
      default_method_config_def)

text \<open>C20: the first request to a path that a dynamic resource matches creates the resource of that path
  from the template with the sub-matches, attaches it, starts it with its data file or its configured
  value, and handles the request on it like any other.\<close>

theorem dynamic_request_creates:
  assumes "sv_dynamic sv = pre @ it # its" and "list_all (no_match rx (c_string u)) pre"
    and "rx (resourcePath it) (c_string u) = Inr (Some sm)" and "has_method method it"
    and "resource_config_ok it"
    and "new_Resource (instantiate_config it (c_string u) sm) (logDir (sv_endpoint sv)) (sv_world sv) =
      Inr (r, w)" and "file_accessible r w"
  shows "\<exists>r' w'. handleDynamicRequest rx A encode stack tv q ld (Some u) method sv =
      request_to A encode stack tv (length (sv_resources sv)) q ld method
        (sv\<lparr>sv_resources := sv_resources sv @ [r'], sv_world := w'\<rparr>) \<and>
    r_config r' = instantiate_config it (c_string u) sm \<and> r_value r' = starting_value r w \<and>
    in_sync r' w' \<and> servable r'"
proof -
  have sv: "servable r"
    by (rule new_Resource_servable [OF assms(6) instantiate_config_ok [OF assms(5)]])
  obtain r' w' where a: "attach r w = Inr (0, r', w')" "r_value r' = starting_value r w" "in_sync r' w'"
    using attach_result [OF sv assms(7)] by blast
  have "r_config r' = r_config r" "r_methods r' = r_methods r" using attach_keeps [OF a(1)] by auto
  moreover have "r_config r = instantiate_config it (c_string u) sm"
    by (rule new_Resource_result(1) [OF assms(6)])
  moreover have "handleDynamicRequest rx A encode stack tv q ld (Some u) method sv =
      request_to A encode stack tv (length (sv_resources sv)) q ld method
        (sv\<lparr>sv_resources := sv_resources sv @ [r'], sv_world := w'\<rparr>)"
    using assms(1,4,6) a(1)
    by (simp add: handleDynamicRequest_def dynamic_loop_skip [OF assms(2)]
        dynamic_loop_match [where rx = rx, OF assms(3)])
  ultimately show ?thesis using a sv by (intro exI [of _ r'] exI [of _ w']) (simp add: servable_def)
qed

theorem dynamic_request_creates_witness:
  "\<exists>r' w'. handleDynamicRequest prefix_matcher simple_cache_api example_encode example_stack example_time
       0 (whole_body [1]) (Some ''sensor/7'') PUT example_server =
      request_to simple_cache_api example_encode example_stack example_time 1 0 (whole_body [1]) PUT
        (example_server\<lparr>sv_resources := [lamp, r'], sv_world := w'\<rparr>) \<and>
    dataFile (r_config r') = ''7.dat'' \<and> r_value r' = map byte_of_char ''new''"
proof -
  let ?cfg = "instantiate_config sensors (c_string ''sensor/7'') [''sensor/7'', ''7'']"
  have "\<not> isl (new_Resource ?cfg [] example_world)" by code_simp
  then obtain r w where n: "new_Resource ?cfg [] example_world = Inr (r, w)"
    by (cases "new_Resource ?cfg [] example_world") auto
  have w: "files w = files example_world" "can_write w = can_write example_world"
      "can_read w = can_read example_world"
    using n
    by (auto simp: new_Resource_def sensors_def instantiate_config_def default_method_config_def
        new_ResourceMethod_def createResourceFormatter_def)
  have d: "dataFile ?cfg = ''7.dat''" by code_simp
  have ok: "resource_config_ok sensors"
    by (simp add: resource_config_ok_def method_config_ok_def sensors_def default_method_config_def)
  note created = dynamic_request_creates [of example_server "[]" sensors "[]" prefix_matcher
      "''sensor/7''" "[''sensor/7'', ''7'']" PUT r w simple_cache_api example_encode example_stack
      example_time 0 "whole_body [1]"]
  have "starting_value r w = map byte_of_char ''new''"
    using new_Resource_result [OF n]
    by (simp add: starting_value_def w sensors_def example_world_def)
  then show ?thesis
    using created n w d ok
    by (simp add: example_server_def prefix_matcher_def file_accessible_def has_method_def
        example_world_def sensors_def c_string_def NUL_def default_endpoint_config_def)
       (force simp: default_endpoint_config_def)
qed

text \<open>C21: a client can end the program: when the data file of a dynamic resource depends on the path and
  the file that results for the path of a request does not exist and cannot be created (a directory
  that is not there is enough), the request makes \<open>attach\<close> throw out of the handler that libcoap
  called.\<close>

theorem unwritable_data_file_throws:
  assumes "sv_dynamic sv = pre @ it # its" and "list_all (no_match rx (c_string u)) pre"
    and "rx (resourcePath it) (c_string u) = Inr (Some sm)" and "has_method method it"
    and "resource_config_ok it"
    and "new_Resource (instantiate_config it (c_string u) sm) (logDir (sv_endpoint sv)) (sv_world sv) =
      Inr (r, w)"
    and "regexReplace (dataFile it) sm \<noteq> []" and "files w (regexReplace (dataFile it) sm) = None"
    and "\<not> can_write w (regexReplace (dataFile it) sm)"
  shows "handleDynamicRequest rx A encode stack tv q ld (Some u) method sv =
    Inl (LibraryThrow ''std::filesystem::filesystem_error'')"
proof -
  have sv: "servable r"
    by (rule new_Resource_servable [OF assms(6) instantiate_config_ok [OF assms(5)]])
  have path: "r_dataFilePath r = regexReplace (dataFile it) sm"
    using new_Resource_result(4) [OF assms(6)] by (simp add: instantiate_config_def)
  have "attach r w = Inl (LibraryThrow ''std::filesystem::filesystem_error'')"
    using setValue_unwritable [of r "attached_world r w"] assms(7-9)
    by (simp add: attach_servable [OF sv] path exists_file_def attached_world_def setValue_string_def)
  then show ?thesis
    using assms(1,4,6)
    by (simp add: handleDynamicRequest_def dynamic_loop_skip [OF assms(2)]
        dynamic_loop_match [where rx = rx, OF assms(3)])
qed

theorem unwritable_data_file_throws_witness:
  "handleDynamicRequest prefix_matcher simple_cache_api example_encode example_stack example_time
     0 (whole_body [1]) (Some ''sensor/a/b'') PUT
     (example_server\<lparr>sv_world := example_world\<lparr>can_write := \<lambda>p. slash \<notin> set p\<rparr>\<rparr>) =
   Inl (LibraryThrow ''std::filesystem::filesystem_error'')"
proof -
  let ?w = "example_world\<lparr>can_write := \<lambda>p. slash \<notin> set p\<rparr>"
  let ?cfg = "instantiate_config sensors (c_string ''sensor/a/b'') [''sensor/a/b'', ''a/b'']"
  have "\<not> isl (new_Resource ?cfg [] ?w)" by code_simp
  then obtain r w where n: "new_Resource ?cfg [] ?w = Inr (r, w)"
    by (cases "new_Resource ?cfg [] ?w") auto
  have w: "files w = files ?w" "can_write w = can_write ?w"
    using n
    by (auto simp: new_Resource_def sensors_def instantiate_config_def default_method_config_def
        new_ResourceMethod_def createResourceFormatter_def)
  have d: "regexReplace (dataFile sensors) [''sensor/a/b'', ''a/b''] = ''a/b.dat''" by code_simp
  have ok: "resource_config_ok sensors"
    by (simp add: resource_config_ok_def method_config_ok_def sensors_def default_method_config_def)
  show ?thesis
    using unwritable_data_file_throws [of "example_server\<lparr>sv_world := ?w\<rparr>" "[]" sensors "[]"
        prefix_matcher "''sensor/a/b''" "[''sensor/a/b'', ''a/b'']" PUT r w simple_cache_api
        example_encode example_stack example_time 0 "whole_body [1]"] n w d ok
    by (simp add: example_server_def prefix_matcher_def has_method_def example_world_def c_string_def
        NUL_def default_endpoint_config_def slash_def)
       (simp add: sensors_def default_method_config_def)
qed

text \<open>One round of the value update thread gives every resource the contents of its data file if that
  is newer than what the resource has seen, leaves the files alone, and a second round changes
  nothing.\<close>

lemma value_update_round:
  assumes "list_all (\<lambda>r. can_read (sv_world sv) (r_dataFilePath r)) (sv_resources sv)"
  shows "map r_value (sv_resources (server_valueUpdate sv)) =
      map (\<lambda>r. updated_value r (sv_world sv)) (sv_resources sv) \<and>
    files (sv_world (server_valueUpdate sv)) = files (sv_world sv) \<and>
    server_valueUpdate (server_valueUpdate sv) = server_valueUpdate sv"
  using assms update_all_map [of "sv_resources sv" "sv_world sv"] server_valueUpdate_idem [of sv]
  by (auto simp: server_valueUpdate_def split_beta valueUpdate_value list_all_iff)

lemma value_update_round_example:
  "let sv = example_server\<lparr>sv_world := example_world\<lparr>files :=
         [''lamp.dat'' \<mapsto> \<lparr>file_data = [1, 2], file_time = 3\<rparr>]\<rparr>\<rparr>
   in map r_value (sv_resources (server_valueUpdate sv)) = [[1, 2]] \<and>
      server_valueUpdate (server_valueUpdate sv) = server_valueUpdate sv"
  using value_update_round [of "example_server\<lparr>sv_world := example_world\<lparr>files :=
         [''lamp.dat'' \<mapsto> \<lparr>file_data = [1, 2], file_time = 3\<rparr>]\<rparr>\<rparr>"]
  by (simp add: Let_def example_server_def example_world_def lamp_def example_resource_def
      updated_value_def)

text \<open>C30: for resources with the methods a loaded configuration has, \<open>init\<close> returns 0 exactly when the
  address resolution does not give 0, libcoap creates the context and an endpoint for the resulting
  address, and for DTLS and TLS the keys can be set up; then libcoap has the settings with the
  configured key files. Otherwise it returns 1 and attaches nothing.\<close>

theorem init_outcome:
  assumes "list_all servable (sv_resources sv)" and "init H sv = Inr (ret, sv')"
  shows "let ep = sv_endpoint sv; (res, size) = resolveAddress H (address ep) (port ep);
      secure = transport ep \<in> {DTLS, TLS}
    in (ret = 0 \<longleftrightarrow> res \<noteq> 0 \<and> new_context H \<and> new_endpoint H size (transport ep) \<and>
          (secure \<longrightarrow> fst (setupSecurity H (security ep) True (sv_pki sv)) = 0)) \<and>
       (ret = 0 \<and> secure \<longrightarrow>
          sv_pki sv' = Some (pki_setup (security ep)) \<and> set_pki H True (pki_setup (security ep))) \<and>
       (ret \<noteq> 0 \<longrightarrow> ret = 1 \<and> (\<exists>pki. sv' = sv\<lparr>sv_pki := pki\<rparr>))"
proof -
  let ?ep = "sv_endpoint sv" and ?res = "resolveAddress H (address (sv_endpoint sv)) (port (sv_endpoint sv))"
  define ctx where "ctx \<longleftrightarrow> fst ?res \<noteq> 0 \<and> new_context H"
  define sec where "sec = (if transport ?ep \<in> {DTLS, TLS}
      then setupSecurity H (security ?ep) ctx (sv_pki sv) else (0, sv_pki sv))"
  let ?sv1 = "sv\<lparr>sv_pki := snd sec\<rparr>"
  define up where "up \<longleftrightarrow> ctx \<and> fst sec = 0 \<and> new_endpoint H (snd ?res) (transport ?ep)"
  have "if up then ret = 0 \<and> sv_pki sv' = snd sec else ret = 1 \<and> sv' = ?sv1"
    using assms attach_all_ok [of "sv_resources sv" "sv_world sv"]
    by (auto simp: init_def split_beta Let_def up_def ctx_def sec_def list_all_iff res_simps
        split: if_splits)
  then have "if up then ret = 0 \<and> sv_pki sv' = snd sec
      else ret = 1 \<and> (\<exists>pki. sv' = sv\<lparr>sv_pki := pki\<rparr>)"
    by (metis (full_types))
  moreover have "fst sec = 0 \<and> transport ?ep \<in> {DTLS, TLS} \<longrightarrow>
      snd sec = Some (pki_setup (security ?ep)) \<and> set_pki H ctx (pki_setup (security ?ep))"
    by (auto simp: sec_def setupSecurity_def Let_def split: if_splits)
  ultimately show ?thesis
    by (auto simp: Let_def split_beta up_def ctx_def sec_def split: if_splits)
qed

definition example_host :: host_api where
  "example_host = \<lparr>getaddrinfo = \<lambda>_ _. (0, [\<lparr>ai_family = AF_OTHER, ai_addrlen = 8\<rparr>,
       \<lparr>ai_family = AF_INET6, ai_addrlen = 28\<rparr>]),
     new_context = True, new_endpoint = \<lambda>_ _. True, stat_ok = \<lambda>_. False, malloc_ok = True,
     set_pki = \<lambda>_ _. False\<rparr>"

theorem init_outcome_witness:
  "\<exists>sv'. init example_host example_server = Inr (0, sv') \<and>
     resolveAddress example_host ''0.0.0.0'' ''5683'' = (28, 28)"
proof -
  have r: "resolveAddress example_host ''0.0.0.0'' ''5683'' = (28, 28)"
    by (simp add: resolveAddress_def example_host_def)
  have lamp: "servable lamp" "file_accessible lamp example_world"
    by (simp_all add: servable_def lamp_def example_method_def getMethodType_def
        file_accessible_def example_world_def)
  obtain r' w' where "attach lamp example_world = Inr (0, r', w')" using attach_result [OF lamp] by blast
  then have "attach_all (sv_resources example_server) (sv_world example_server) = Inr (0, [r'], w')"
    by (simp add: example_server_def)
  moreover have "sv_endpoint example_server = default_endpoint_config" by (simp add: example_server_def)
  moreover have "new_context example_host" "new_endpoint example_host n t" for n t
    by (simp_all add: example_host_def)
  ultimately obtain ret sv' where i: "init example_host example_server = Inr (ret, sv')"
    using r by (simp add: init_def default_endpoint_config_def Let_def)
  have "list_all servable (sv_resources example_server)" using lamp by (simp add: example_server_def)
  from init_outcome [OF this i] r have "ret = 0"
    by (simp add: example_server_def example_host_def default_endpoint_config_def)
  with i r show ?thesis by blast
qed

text \<open>
  The other side of that result: an error of \<open>getaddrinfo\<close> is not zero either, so \<open>init\<close> goes on with
  an address of size 0; and whether the certificate authority's file exists is never looked at.
\<close>

lemma failed_resolution_goes_on:
  assumes "getaddrinfo H host service = (e, infos)" and "e \<noteq> 0"
  shows "resolveAddress H host service = (e, 0)"
  using assms by (simp add: resolveAddress_def)

lemma missing_ca_accepted:
  assumes "ca sec \<noteq> key sec" and "ca sec \<noteq> cert sec"
  shows "setupSecurity (H\<lparr>stat_ok := (stat_ok H)(ca sec := False)\<rparr>) sec ctx pki =
    setupSecurity H sec ctx pki"
  using assms by (simp add: setupSecurity_def pki_setup_def Let_def)

end
