(* ===== verification/MainProgram.thy ===== *)
theory MainProgram
  imports Server ConfigParse
begin

text \<open>
  The program (\<open>src/main.cpp\<close>): the command line, the overrides of the configuration, the start of
  the server, and the loops of the request handler thread and of the value update thread.
\<close>

section \<open>Command line and start\<close>

record options =
  configPath :: string
  portOverride :: string
  addrOverride :: string
  logDirOverride :: string
  queueSize :: size_t

text \<open>
  What Boost.Program_options finds on the command line: whether help is asked for, and the values
  given. It throws on a malformed command line.
\<close>

record given_options =
  given_help :: bool
  given_config :: "string option"
  given_port :: "string option"
  given_addr :: "string option"
  given_logdir :: "string option"
  given_queue :: "size_t option"

definition with_default :: "'a option \<Rightarrow> 'a \<Rightarrow> 'a" where
  "with_default x d = (case x of None \<Rightarrow> d | Some v \<Rightarrow> v)"

definition handleCmdLine ::
  "('argv \<Rightarrow> given_options res) \<Rightarrow> 'argv \<Rightarrow> (int \<times> options) res" where
  "handleCmdLine parse argv =
     ebind (parse argv) (\<lambda>g.
       Inr (if given_help g then 1 else 0,
         \<lparr>configPath = with_default (given_config g) ''config.json'',
          portOverride = with_default (given_port g) [],
          addrOverride = with_default (given_addr g) [],
          logDirOverride = with_default (given_logdir g) [],
          queueSize = with_default (given_queue g) 32\<rparr>))"

text \<open>The overrides in \<open>main\<close>; \<open>None\<close> is the \<open>return 1\<close> for a port out of range.\<close>

definition override_port :: "options \<Rightarrow> EndpointConfig \<Rightarrow> EndpointConfig option res" where
  "override_port opts ep =
     (if portOverride opts \<noteq> [] then
        ebind (stoi (portOverride opts)) (\<lambda>p.
          if p \<le> 0 \<or> 65535 < p then Inr None else Inr (Some (ep\<lparr>port := portOverride opts\<rparr>)))
      else Inr (Some ep))"

definition override_rest :: "options \<Rightarrow> EndpointConfig \<Rightarrow> EndpointConfig" where
  "override_rest opts ep =
     (let ep1 = (if addrOverride opts \<noteq> [] then ep\<lparr>address := addrOverride opts\<rparr> else ep)
      in if logDirOverride opts \<noteq> [] then ep1\<lparr>logDir := logDirOverride opts\<rparr> else ep1)"

text \<open>\<open>main\<close> up to its threads: it exits with a code, or serves.\<close>

datatype 'c main_outcome = ExitCode int | Serving "'c server"

record ('j, 'argv) program_env =
  parse_command_line :: "'argv \<Rightarrow> given_options res"
  json_calls :: "'j json_api"
  json_parse :: "string \<Rightarrow> 'j res"
  read_text :: "string \<Rightarrow> string option"
  queue_fits :: "size_t \<Rightarrow> bool"
  dtls_supported :: bool
  tls_supported :: bool
  host :: host_api

definition main_start ::
  "('j, 'argv) program_env \<Rightarrow> 'argv \<Rightarrow> 'c block_state \<Rightarrow> request_item \<Rightarrow> world \<Rightarrow>
   'c main_outcome res" where
  "main_start E argv blocks d w =
     ebind (handleCmdLine (parse_command_line E) argv) (\<lambda>(ret, opts).
       if ret \<noteq> 0 then Inr (ExitCode (if 0 < ret then 0 else 1))
       else
         ebind (load_Config (json_calls E) (json_parse E) (read_text E) (configPath opts)) (\<lambda>conf.
         ebind (override_port opts (config_endpoint conf)) (\<lambda>ep.
           case ep of
             None \<Rightarrow> Inr (ExitCode 1)
           | Some ep1 \<Rightarrow>
               let conf1 = conf\<lparr>config_endpoint := override_rest opts ep1\<rparr>
               in if \<not> queue_fits E (queueSize opts) then Inl (LibraryThrow ''std::bad_alloc'')
                  else
                    ebind (new_CoAPServer (dtls_supported E) (tls_supported E) conf1
                        (new_RequestQueue d (queueSize opts)) blocks w) (\<lambda>sv.
                    ebind (init (host E) sv) (\<lambda>(r, sv1).
                      Inr (if r \<noteq> 0 then ExitCode (-1) else Serving sv1))))))"

section \<open>The request handler thread\<close>

text \<open>
  \<open>item.src->handleRequestQueueItem(item)\<close>: the pointer must be that of a live method.
\<close>

definition process_item ::
  "(int \<Rightarrow> tm) \<Rightarrow> cmd_runner \<Rightarrow> (string \<Rightarrow> string option) \<Rightarrow> request_item \<Rightarrow> 'c server \<Rightarrow> 'c server res" where
  "process_item localtime run env item sv =
     (let (i, j) = item_src item
      in ebind (load_at (sv_resources sv) i) (\<lambda>r.
         ebind (load_at (r_methods r) j) (\<lambda>m.
         ebind (handleRequestQueueItem localtime run env m item r (sv_world sv)) (\<lambda>(ret, r', w').
           Inr (sv\<lparr>sv_resources := (sv_resources sv)[i := r'], sv_world := w'\<rparr>)))))"

text \<open>
  \<open>while(queue.count()) { item = queue.dequeue(); ... }\<close> on an arbitrary queue interface:
  \<open>None\<close> when the loop does not end.
\<close>

partial_function (option) drain_loop ::
  "('q \<Rightarrow> size_t res) \<Rightarrow> ('q \<Rightarrow> ('a \<times> 'q) res) \<Rightarrow> ('a \<Rightarrow> 's \<Rightarrow> 's res) \<Rightarrow> 'q \<Rightarrow> 's \<Rightarrow>
   ('q \<times> 's) res option" where
  "drain_loop cnt deq handle q s =
     (case cnt q of
        Inl e \<Rightarrow> Some (Inl e)
      | Inr n \<Rightarrow>
          if n = 0 then Some (Inr (q, s))
          else (case deq q of
                  Inl e \<Rightarrow> Some (Inl e)
                | Inr (item, q') \<Rightarrow>
                    (case handle item s of
                       Inl e \<Rightarrow> Some (Inl e)
                     | Inr s' \<Rightarrow> drain_loop cnt deq handle q' s')))"

text \<open>The inner loop of \<open>_requestQueueThread\<close> on the server's queue.\<close>

definition drain ::
  "(int \<Rightarrow> tm) \<Rightarrow> cmd_runner \<Rightarrow> (string \<Rightarrow> string option) \<Rightarrow> 'c server \<Rightarrow> 'c server res option" where
  "drain localtime run env sv =
     map_option (\<lambda>r. ebind r (\<lambda>(q, sv'). Inr (sv'\<lparr>sv_queue := q\<rparr>)))
       (drain_loop count dequeue (process_item localtime run env) (sv_queue sv) sv)"

context bounded_fifo
begin

text \<open>
  On any bounded queue the loop ends, takes the items in order and stops at the first failure;
  without one it leaves the queue empty.
\<close>

lemma drain_loop_result:
  assumes "ok q" and "cap q < 2 ^ 64"
  shows "\<exists>r. drain_loop cnt deq handle q s = Some r \<and>
    (case efold handle (contents q) s of
       Inl e \<Rightarrow> r = Inl e
     | Inr s' \<Rightarrow> \<exists>q'. r = Inr (q', s') \<and> ok q' \<and> contents q' = [] \<and> cap q' = cap q)"
  using assms
proof (induction "contents q" arbitrary: q s)
  case Nil
  then show ?case
    using cnt_length [OF Nil.prems(1)] by (simp add: drain_loop.simps)
next
  case (Cons x xs)
  have len: "length (contents q) < 2 ^ 64"
    using within [OF Cons.prems(1)] Cons.prems(2) by simp
  then have "unat (word_of_nat (length (contents q)) :: size_t) = length (contents q)"
    by (simp add: unat_of_nat)
  then have ne: "(word_of_nat (length (contents q)) :: size_t) \<noteq> 0"
    using Cons.hyps(2) by (metis length_0_conv list.distinct(1) unat_0)
  obtain q1 where q1: "deq q = Inr (x, q1)" "ok q1" "contents q1 = xs" "cap q1 = cap q"
    using deq_front [OF Cons.prems(1) Cons.hyps(2) [symmetric]] by blast
  note unfold = drain_loop.simps [of cnt deq handle q s]
  show ?case
  proof (cases "handle x s")
    case (Inl e)
    then show ?thesis
      using cnt_length [OF Cons.prems(1)] ne q1(1)
      by (simp add: unfold flip: Cons.hyps(2))
  next
    case (Inr s1)
    have "cap q1 < 2 ^ 64" using q1(4) Cons.prems(2) by simp
    note IH = Cons.hyps(1) [OF q1(3) [symmetric] q1(2) this, of s1, unfolded q1(3,4)]
    show ?thesis
      using IH Inr cnt_length [OF Cons.prems(1)] ne q1
      by (simp add: unfold flip: Cons.hyps(2))
  qed
qed

end

section \<open>The value update thread and the server loop\<close>

text \<open>
  \<open>exec\<close> hands the result of \<open>coap_io_process\<close> on as success or failure. The body of the value update
  thread is \<open>server_valueUpdate\<close>, repeated every three seconds.
\<close>

definition exec :: "int \<Rightarrow> int" where
  "exec processed = (if processed < 0 then -1 else 0)"

definition valueUpdate_rounds :: "nat \<Rightarrow> 'c server \<Rightarrow> 'c server" where
  "valueUpdate_rounds n sv = (server_valueUpdate ^^ n) sv"

section \<open>Properties\<close>

text \<open>C13: the loop of the request handler thread ends: it handles exactly the queued requests, in their
  order, stops at the first that throws, and otherwise leaves the queue empty and the rest of the
  server as the handlers left it.\<close>

theorem drain_handles_all:
  assumes "rq_wf (sv_queue sv)"
  shows "\<exists>r. drain localtime run env sv = Some r \<and>
    (case efold (process_item localtime run env) (rq_contents (sv_queue sv)) sv of
       Inl e \<Rightarrow> r = Inl e
     | Inr sv' \<Rightarrow> \<exists>queue. r = Inr (sv'\<lparr>sv_queue := queue\<rparr>) \<and> rq_wf queue \<and> rq_contents queue = [])"
proof -
  have "rq_capacity (sv_queue sv) < 2 ^ 64"
    using assms by (auto simp: rq_wf_def rq_capacity_def)
  from ring.drain_loop_result [OF assms this, of "process_item localtime run env" sv]
  obtain r where r: "drain_loop count dequeue (process_item localtime run env) (sv_queue sv) sv = Some r"
      "case efold (process_item localtime run env) (rq_contents (sv_queue sv)) sv of
         Inl e \<Rightarrow> r = Inl e
       | Inr s' \<Rightarrow> \<exists>q'. r = Inr (q', s') \<and> rq_wf q' \<and> rq_contents q' = [] \<and>
           rq_capacity q' = rq_capacity (sv_queue sv)"
    by blast
  then show ?thesis
    by (cases "efold (process_item localtime run env) (rq_contents (sv_queue sv)) sv")
      (auto simp: drain_def)
qed

text \<open>A server with one stored PUT waiting.\<close>

definition busy_server :: "simple_cache server" where
  "busy_server = example_server\<lparr>sv_queue :=
     snd (projr (enqueue (example_queue 4) (queued (0, 1) [9] example_time)))\<rparr>"

lemma busy_server_queue:
  "rq_wf (sv_queue busy_server) \<and>
   rq_contents (sv_queue busy_server) = [queued (0, 1) [9] example_time]"
proof -
  have "rq_wf (example_queue 4)" "rq_len (example_queue 4) < rq_capacity (example_queue 4)"
    using example_queue_room [of 4] by simp_all
  from enqueue_room [OF this, of "queued (0, 1) [9] example_time"] show ?thesis
    by (auto simp: busy_server_def)
qed

lemma lamp_PUT_stored:
  "\<exists>r' w'. handleRequestQueueItem example_tm (\<lambda>_ _ _ _. LaunchFailed) Map.empty (example_method PUT True)
      (queued (0, 1) [9] example_time) lamp example_world = Inr (0, r', w') \<and> r_value r' = [9]"
proof -
  have "getMethodType (example_method PUT True) \<in> {POST, PUT}"
    "store (m_config (example_method PUT True))"
    "runnable (\<lambda>_ _ _ _. LaunchFailed) (example_method PUT True)"
    by (simp_all add: getMethodType_def example_method_def runnable_def default_method_config_def)
  from handle_item_store [OF this lamp_can_store lamp_separate, of example_tm Map.empty
      "queued (0, 1) [9] example_time"]
  show ?thesis by (auto simp: queued_def)
qed

theorem drain_handles_all_witness:
  "\<exists>sv'. drain example_tm (\<lambda>_ _ _ _. LaunchFailed) Map.empty busy_server = Some (Inr sv') \<and>
     rq_contents (sv_queue sv') = [] \<and> map r_value (sv_resources sv') = [[9]]"
proof -
  obtain r' w' where h: "handleRequestQueueItem example_tm (\<lambda>_ _ _ _. LaunchFailed) Map.empty
      (example_method PUT True) (queued (0, 1) [9] example_time) lamp example_world = Inr (0, r', w')"
      "r_value r' = [9]"
    using lamp_PUT_stored by blast
  have "process_item example_tm (\<lambda>_ _ _ _. LaunchFailed) Map.empty
      (queued (0, 1) [9] example_time) busy_server =
      Inr (busy_server\<lparr>sv_resources := [r'], sv_world := w'\<rparr>)"
    using h(1)
    by (simp add: process_item_def queued_def busy_server_def example_server_def lamp_def)
  then show ?thesis
    using drain_handles_all [of busy_server example_tm "\<lambda>_ _ _ _. LaunchFailed" Map.empty]
      busy_server_queue h(2)
    by auto
qed

text \<open>A port given on the command line is accepted exactly from 1 to 65535 (the message says 65536
  inclusive), and text behind the number is accepted with it and handed to the address resolution.\<close>

lemma port_override_range:
  assumes "n < 2 ^ 31" and "rest = [] \<or> \<not> isdigit (hd rest)"
    and "portOverride opts = digits 10 False n @ rest"
  shows "override_port opts ep =
    Inr (if 1 \<le> n \<and> n \<le> 65535 then Some (ep\<lparr>port := digits 10 False n @ rest\<rparr>) else None)"
  using stoi_digits [OF assms(1,2), of False] digits_not_Nil [of 10 False n]
  by (simp add: override_port_def assms(3))

lemma port_override_range_example:
  "override_port \<lparr>configPath = [], portOverride = digits 10 False 65536 @ [], addrOverride = [],
     logDirOverride = [], queueSize = 32\<rparr>
     default_endpoint_config = Inr None"
  using port_override_range [of 65536 "[]" "\<lparr>configPath = [], portOverride = digits 10 False 65536 @ [],
     addrOverride = [], logDirOverride = [], queueSize = 32\<rparr>" default_endpoint_config]
  by simp

end
