(* ===== verification/Lifetimes.thy ===== *)
theory Lifetimes
  imports Server
begin

text \<open>
  The objects the server makes with \<open>new\<close> and \<open>malloc\<close>, and the destructors that release them
  (\<open>~CoAPServer\<close>, \<open>~Resource\<close>, \<open>~ResourceMethod\<close>). The heap is the set of live objects; releasing an
  object that is not live is undefined behaviour. The buffers of request bodies have their own heap
  in \<open>Blockwise\<close>.
\<close>

section \<open>Objects\<close>

text \<open>
  Objects are named by their place: resource \<open>i\<close>, its method \<open>j\<close>, formatter \<open>k\<close> of that method, the
  configuration that was copied for resource \<open>i\<close>, and the DTLS settings.
\<close>

datatype object =
    ResourceObject nat
  | MethodObject nat nat
  | FormatterObject nat nat nat
  | ConfigObject nat
  | PkiObject

definition release :: "object \<Rightarrow> object set \<Rightarrow> object set res" where
  "release ob live =
     (if ob \<in> live then Inr (live - {ob}) else Inl (Undefined ''delete of an object that is not live''))"

section \<open>Destructors\<close>

text \<open>\<open>delete\<close> of a method: \<open>~ResourceMethod\<close> deletes its formatters, then its memory goes.\<close>

definition delete_method :: "nat \<Rightarrow> nat \<times> resource_method \<Rightarrow> object set \<Rightarrow> object set res" where
  "delete_method i jm live =
     ebind (efold (\<lambda>k. release (FormatterObject i (fst jm) k)) [0..<length (m_fmts (snd jm))] live)
       (release (MethodObject i (fst jm)))"

text \<open>\<open>delete\<close> of a resource: its methods, its configuration if that says it is dynamic, its memory.\<close>

definition delete_resource :: "nat \<times> resource \<Rightarrow> object set \<Rightarrow> object set res" where
  "delete_resource ir live = (case ir of (i, r) \<Rightarrow>
     ebind (efold (delete_method i) (enumerate 0 (r_methods r)) live) (\<lambda>live1.
     ebind (if dynamic (r_config r) then release (ConfigObject i) live1 else Inr live1)
       (release (ResourceObject i))))"

text \<open>
  \<open>coap_free_context\<close> drops the cache entries \<open>es\<close> and calls \<open>_cache_free_app_data\<close> for each.
\<close>

definition free_context ::
  "('c, 'q, 'e) cache_api \<Rightarrow> 'e list \<Rightarrow> 'c block_state \<Rightarrow> 'c block_state res" where
  "free_context A es s = efold (expire_entry A) es s"

definition delete_CoAPServer ::
  "('c, 'q, 'e) cache_api \<Rightarrow> 'e list \<Rightarrow> 'c server \<Rightarrow> object set \<Rightarrow> ('c block_state \<times> object set) res" where
  "delete_CoAPServer A es sv live =
     ebind (free_context A es (sv_blocks sv)) (\<lambda>blocks.
     ebind (case sv_pki sv of Some _ \<Rightarrow> release PkiObject live | None \<Rightarrow> Inr live) (\<lambda>live1.
     ebind (efold delete_resource (enumerate 0 (sv_resources sv)) live1) (\<lambda>live2.
       Inr (blocks, live2))))"

section \<open>What is made\<close>

text \<open>
  The objects of a resource: \<open>copied\<close> says whether its configuration was made with \<open>new\<close> for it, as
  \<open>handleDynamicRequest\<close> does and the constructor of the server does not.
\<close>

definition method_objects :: "nat \<Rightarrow> nat \<times> resource_method \<Rightarrow> object set" where
  "method_objects i jm =
     insert (MethodObject i (fst jm)) (FormatterObject i (fst jm) ` {..<length (m_fmts (snd jm))})"

definition resource_objects :: "bool \<Rightarrow> nat \<times> resource \<Rightarrow> object set" where
  "resource_objects copied ir =
     insert (ResourceObject (fst ir))
       ((\<Union>jm \<in> set (enumerate 0 (r_methods (snd ir))). method_objects (fst ir) jm) \<union>
        (if copied then {ConfigObject (fst ir)} else {}))"

section \<open>Releasing\<close>

text \<open>A loop whose steps release disjoint sets of live objects releases their union.\<close>

lemma efold_releases:
  assumes "\<And>x live. x \<in> set xs \<Longrightarrow> S x \<subseteq> live \<Longrightarrow> f x live = Inr (live - S x)"
    and "distinct xs" and "\<And>x y. x \<in> set xs \<Longrightarrow> y \<in> set xs \<Longrightarrow> x \<noteq> y \<Longrightarrow> S x \<inter> S y = {}"
    and "(\<Union>x \<in> set xs. S x) \<subseteq> live"
  shows "efold f xs live = Inr (live - (\<Union>x \<in> set xs. S x))"
  using assms
proof (induction xs arbitrary: live)
  case (Cons x xs)
  have "S x \<subseteq> live" using Cons.prems(4) by auto
  then have x: "f x live = Inr (live - S x)" using Cons.prems(1) by simp
  have "S x \<inter> S y = {}" if "y \<in> set xs" for y
    using that Cons.prems(2,3) by (metis distinct.simps(2) list.set_intros(1,2))
  then have sub: "(\<Union>x \<in> set xs. S x) \<subseteq> live - S x" using Cons.prems(4) by auto
  have "efold f xs (live - S x) = Inr (live - S x - (\<Union>x \<in> set xs. S x))"
    by (rule Cons.IH) (use Cons.prems(1-3) sub in \<open>simp_all\<close>)
  with x show ?case by (simp add: Diff_eq Int_assoc)
qed simp

lemma release_live: "ob \<in> live \<Longrightarrow> release ob live = Inr (live - {ob})"
  by (simp add: release_def)

lemma delete_method_releases:
  assumes "method_objects i jm \<subseteq> live"
  shows "delete_method i jm live = Inr (live - method_objects i jm)"
proof -
  let ?f = "\<lambda>k. FormatterObject i (fst jm) k"
  have "efold (\<lambda>k. release (?f k)) [0..<length (m_fmts (snd jm))] live =
      Inr (live - (\<Union>k \<in> set [0..<length (m_fmts (snd jm))]. {?f k}))"
    by (rule efold_releases) (use assms in \<open>auto simp: method_objects_def release_live\<close>)
  moreover have "(\<Union>k \<in> set [0..<length (m_fmts (snd jm))]. {?f k}) =
      ?f ` {..<length (m_fmts (snd jm))}"
    by auto
  ultimately show ?thesis
    using assms by (auto simp: delete_method_def method_objects_def release_def)
qed

lemma distinct_enumerate: "distinct (enumerate n xs)"
  by (metis distinct_map distinct_upt map_fst_enumerate)

lemma set_enumerate: "set (enumerate 0 xs) = (\<lambda>i. (i, xs ! i)) ` {..<length xs}"
  by (force simp: in_set_enumerate_eq image_iff)

lemma enumerate_same_index:
  "x \<in> set (enumerate n xs) \<Longrightarrow> y \<in> set (enumerate n xs) \<Longrightarrow> fst x = fst y \<Longrightarrow> x = y"
  by (auto simp: in_set_enumerate_eq prod_eq_iff)

lemma delete_resource_releases:
  assumes "resource_objects copied ir \<subseteq> live" and "copied = dynamic (r_config (snd ir))"
  shows "delete_resource ir live = Inr (live - resource_objects copied ir)"
proof -
  obtain i r where ir: "ir = (i, r)" by fastforce
  let ?ms = "enumerate 0 (r_methods r)"
  have sub: "(\<Union>jm \<in> set ?ms. method_objects i jm) \<subseteq> live"
    using assms(1) by (auto simp: resource_objects_def ir)
  have "efold (delete_method i) ?ms live = Inr (live - (\<Union>jm \<in> set ?ms. method_objects i jm))"
  proof (rule efold_releases [OF delete_method_releases distinct_enumerate _ sub], assumption)
    show "method_objects i x \<inter> method_objects i y = {}"
      if "x \<in> set ?ms" "y \<in> set ?ms" "x \<noteq> y" for x y
      using that enumerate_same_index [of x 0 "r_methods r" y] by (auto simp: method_objects_def)
  qed
  moreover have "ResourceObject i \<notin> method_objects i jm" "ConfigObject i \<notin> method_objects i jm" for jm
    by (auto simp: method_objects_def)
  ultimately show ?thesis
    using assms by (auto simp: delete_resource_def ir resource_objects_def release_def)
qed

lemma resource_objects_disjoint:
  "fst x \<noteq> fst y \<Longrightarrow> resource_objects b x \<inter> resource_objects c y = {}"
  by (auto simp: resource_objects_def method_objects_def split: if_splits)

text \<open>
  The live objects of a server: the settings if any, and those of its resources, where exactly the
  resources with a number in \<open>own\<close> have a configuration of their own.
\<close>

definition server_objects :: "nat set \<Rightarrow> 'c server \<Rightarrow> object set" where
  "server_objects own sv =
     (case sv_pki sv of Some _ \<Rightarrow> {PkiObject} | None \<Rightarrow> {}) \<union>
     (\<Union>ir \<in> set (enumerate 0 (sv_resources sv)). resource_objects (fst ir \<in> own) ir)"

lemma PkiObject_separate: "PkiObject \<notin> resource_objects b ir"
  by (auto simp: resource_objects_def method_objects_def)

lemma free_context_safe:
  assumes "cache_frame A" and "blocks_inv A s"
  shows "\<exists>s'. free_context A es s = Inr s' \<and> blocks_inv A s'"
  unfolding free_context_def
  by (rule efold_invariant [where P = "blocks_inv A", OF _ assms(2)])
    (rule expire_entry_safe [OF assms(1)])

lemma delete_CoAPServer_releases:
  assumes "cache_frame A" and "blocks_inv A (sv_blocks sv)"
    and "\<forall>i < length (sv_resources sv). i \<in> own \<longleftrightarrow> dynamic (r_config (sv_resources sv ! i))"
  shows "\<exists>blocks. delete_CoAPServer A es sv (server_objects own sv) = Inr (blocks, {}) \<and>
    blocks_inv A blocks"
proof -
  let ?rs = "enumerate 0 (sv_resources sv)"
  let ?live = "\<Union>ir \<in> set ?rs. resource_objects (fst ir \<in> own) ir"
  obtain blocks where b: "free_context A es (sv_blocks sv) = Inr blocks" "blocks_inv A blocks"
    using free_context_safe [OF assms(1,2)] by blast
  have pki: "(case sv_pki sv of Some _ \<Rightarrow> release PkiObject (server_objects own sv)
      | None \<Rightarrow> Inr (server_objects own sv)) = Inr ?live"
    using PkiObject_separate
    by (auto simp: server_objects_def release_def split: option.split)
  have own: "(fst ir \<in> own) = dynamic (r_config (snd ir))" if "ir \<in> set ?rs" for ir
    using that assms(3) by (auto simp: in_set_enumerate_eq)
  have "efold delete_resource ?rs ?live = Inr (?live - ?live)"
  proof (rule efold_releases [OF _ distinct_enumerate])
    show "delete_resource ir live = Inr (live - resource_objects (fst ir \<in> own) ir)"
      if "ir \<in> set ?rs" "resource_objects (fst ir \<in> own) ir \<subseteq> live" for ir live
      by (rule delete_resource_releases [OF that(2) own [OF that(1)]])
    show "resource_objects (fst x \<in> own) x \<inter> resource_objects (fst y \<in> own) y = {}"
      if "x \<in> set ?rs" "y \<in> set ?rs" "x \<noteq> y" for x y
      by (rule resource_objects_disjoint) (use that enumerate_same_index in blast)
  qed simp
  then show ?thesis using b pki by (simp add: delete_CoAPServer_def)
qed

end
