(* ===== verification/ServerInvariant.thy ===== *)
theory ServerInvariant
  imports MainProgram
begin

text \<open>
  What every operation of the server keeps: the queue is well formed and its items point to methods
  that exist, the buffers of request bodies are owned by their cache entries, and every resource and
  every configuration of a dynamic resource has methods that can be attached. And what every
  operation avoids: undefined behaviour, under the stated conditions on its inputs.
\<close>

section \<open>The invariant\<close>

definition live_source :: "resource list \<Rightarrow> request_item \<Rightarrow> bool" where
  "live_source rs item \<longleftrightarrow>
     fst (item_src item) < length rs \<and>
     snd (item_src item) < length (r_methods (rs ! fst (item_src item)))"

definition server_ok :: "('c, 'q, 'e) cache_api \<Rightarrow> 'c server \<Rightarrow> bool" where
  "server_ok A sv \<longleftrightarrow>
     rq_wf (sv_queue sv) \<and> list_all (live_source (sv_resources sv)) (rq_contents (sv_queue sv)) \<and>
     blocks_inv A (sv_blocks sv) \<and> list_all servable (sv_resources sv) \<and>
     list_all (\<lambda>c. resource_config_ok c \<and> dynamic c) (sv_dynamic sv)"

text \<open>Resources whose methods did not change.\<close>

definition same_methods :: "resource list \<Rightarrow> resource list \<Rightarrow> bool" where
  "same_methods rs rs' \<longleftrightarrow>
     list_all2 (\<lambda>r r'. r_methods r' = r_methods r \<and> r_config r' = r_config r) rs rs'"

lemma same_methods_update:
  assumes "i < length rs" and "r_methods r' = r_methods (rs ! i)" and "r_config r' = r_config (rs ! i)"
  shows "same_methods rs (rs[i := r'])"
  using assms by (auto simp: same_methods_def list_all2_conv_all_nth nth_list_update)

lemma same_methods_live: "same_methods rs rs' \<Longrightarrow> live_source rs' item = live_source rs item"
  by (auto simp: same_methods_def live_source_def list_all2_conv_all_nth)

lemma same_methods_servable: "same_methods rs rs' \<Longrightarrow> list_all servable rs' = list_all servable rs"
  by (simp add: same_methods_def list_all2_conv_all_nth list_all_length servable_def)

lemma same_methods_config: "same_methods rs rs' \<Longrightarrow> map r_config rs' = map r_config rs"
  by (auto simp: same_methods_def list_all2_conv_all_nth intro!: nth_equalityI)

lemma server_ok_same_methods:
  assumes "server_ok A sv" and "same_methods (sv_resources sv) rs"
  shows "server_ok A (sv\<lparr>sv_resources := rs, sv_world := w\<rparr>)"
proof -
  have "live_source rs = live_source (sv_resources sv)"
    using same_methods_live [OF assms(2)] by (simp add: fun_eq_iff)
  then show ?thesis
    using assms same_methods_servable [OF assms(2)] by (simp add: server_ok_def)
qed

section \<open>Requests\<close>

definition accepted_response :: "pdu_call list \<Rightarrow> bool" where
  "accepted_response calls \<longleftrightarrow> SetCode CODE_OK \<in> set calls \<or> SetCode CODE_CONTENT \<in> set calls"

lemma accepted_response_simps [simp]:
  "\<not> accepted_response []"
  "accepted_response (c # cs) \<longleftrightarrow> c = SetCode CODE_OK \<or> c = SetCode CODE_CONTENT \<or> accepted_response cs"
  by (auto simp: accepted_response_def)

text \<open>The queue gets one item, of the method that was called, exactly if the answer says so.\<close>

definition queue_effect ::
  "pdu_call list \<Rightarrow> nat \<times> nat \<Rightarrow> request_item request_queue \<Rightarrow> request_item request_queue \<Rightarrow> bool" where
  "queue_effect calls this queue queue' \<longleftrightarrow>
     rq_wf queue' \<and> rq_capacity queue' = rq_capacity queue \<and>
     (if accepted_response calls
      then \<exists>item. rq_contents queue' = rq_contents queue @ [item] \<and> item_src item = this
      else rq_contents queue' = rq_contents queue)"

lemma enqueue_effect:
  assumes "rq_wf queue"
  obtains queue' where "enqueue queue item = Inr (0, queue')" "rq_wf queue'"
      "rq_contents queue' = rq_contents queue @ [item]" "rq_capacity queue' = rq_capacity queue"
    | "enqueue queue item = Inr (-1, queue)"
  using ring.enq_cases [OF assms, of item] by metis

lemma methodHandler_effect:
  assumes "rq_wf queue" and "methodHandler encode stack tv this r m data queue = Inr (calls, queue')"
  shows "queue_effect calls this queue queue'"
proof (cases "getMethodType m \<in> {GET, PUT, POST}")
  case True
  define d where "d = (if getMethodType m = GET then getValue r else data)"
  from assms(1) show ?thesis
    by (rule enqueue_effect [where item = "\<lparr>item_src = this, item_data = d, item_time = tv\<rparr>"])
      (use True assms in \<open>auto simp: methodHandler_def d_def Let_def queue_effect_def res_simps
        split: if_splits\<close>)
next
  case False
  then show ?thesis
    using assms by (cases "getMethodType m") (auto simp: methodHandler_def queue_effect_def)
qed

lemma methodHandler_defined [defined_intros]:
  assumes "rq_wf queue" and "length (path_bytes r) < 255" and "length stack = 256"
  shows "defined (methodHandler encode stack tv this r m data queue)"
proof (cases "getMethodType m \<in> {GET, PUT, POST}")
  case True
  define d where "d = (if getMethodType m = GET then getValue r else data)"
  from assms(1) show ?thesis
    by (rule enqueue_effect [where item = "\<lparr>item_src = this, item_data = d, item_time = tv\<rparr>"])
      (use True assms strncpy_short [OF assms(2,3) path_bytes_no_NUL] in
        \<open>auto simp: methodHandler_def d_def Let_def path_bytes_def\<close>)
next
  case False
  then show ?thesis by (cases "getMethodType m") (auto simp: methodHandler_def)
qed

lemma handleCoAPRequest_effect:
  assumes "cache_frame A" and "blocks_inv A s" and "large_data_ok ld" and "rq_wf queue"
    and "handleCoAPRequest A encode stack tv i r q ld method s queue = Inr (calls, s', queue')"
  shows "blocks_inv A s' \<and> (\<exists>j. queue_effect calls (i, j) queue queue' \<and>
    (accepted_response calls \<longrightarrow> j < length (r_methods r)))"
proof -
  obtain ret data s1 where s1: "sessionGetData A q ld [] s = Inr (ret, data, s1)" "blocks_inv A s1"
    using sessionGetData_safe [OF assms(1-3)] by blast
  have none: "queue_effect calls (i, j) queue queue \<longleftrightarrow> \<not> accepted_response calls" for calls j
    using assms(4) by (auto simp: queue_effect_def)
  show ?thesis
    using assms(2,4,5) s1 none
    by (auto simp: handleCoAPRequest_def res_simps dest!: methodHandler_effect [OF assms(4)]
        find_method_Some split: if_splits option.splits)
qed

lemma handleCoAPRequest_defined [defined_intros]:
  assumes "cache_frame A" and "blocks_inv A s" and "large_data_ok ld" and "rq_wf queue"
    and "length (path_bytes r) < 255" and "length stack = 256"
  shows "defined (handleCoAPRequest A encode stack tv i r q ld method s queue)"
proof -
  obtain ret data s1 where "sessionGetData A q ld [] s = Inr (ret, data, s1)"
    using sessionGetData_safe [OF assms(1-3)] by blast
  then show ?thesis
    by (auto simp: handleCoAPRequest_def split: option.split
        intro!: defined_intros assms(4-6))
qed

text \<open>
  A request changes the queue and the block buffers only. \<open>request_effect\<close> says it for the whole
  server, and covers the case that a resource was added before.
\<close>

definition request_effect ::
  "('c, 'q, 'e) cache_api \<Rightarrow> string \<Rightarrow> pdu_call list \<Rightarrow> 'c server \<Rightarrow> 'c server \<Rightarrow> bool" where
  "request_effect A uri calls sv sv' \<longleftrightarrow>
     server_ok A sv' \<and> sv_pki sv' = sv_pki sv \<and> sv_dynamic sv' = sv_dynamic sv \<and>
     (if accepted_response calls
      then \<exists>item. rq_contents (sv_queue sv') = rq_contents (sv_queue sv) @ [item]
      else rq_contents (sv_queue sv') = rq_contents (sv_queue sv)) \<and>
     (\<exists>new. sv_resources sv' = sv_resources sv @ new \<and>
        list_all (\<lambda>r. dynamic (r_config r) \<and> getPath r = uri) new)"

lemma request_to_effect:
  assumes "cache_frame A" and "server_ok A sv" and "large_data_ok ld" and "i < length (sv_resources sv)"
    and "request_to A encode stack tv i q ld method sv = Inr (calls, sv')"
  shows "request_effect A uri calls sv sv' \<and> sv_resources sv' = sv_resources sv"
proof -
  let ?r = "sv_resources sv ! i"
  have ok: "rq_wf (sv_queue sv)" "blocks_inv A (sv_blocks sv)"
      "list_all (live_source (sv_resources sv)) (rq_contents (sv_queue sv))"
    using assms(2) by (auto simp: server_ok_def)
  obtain s' queue' where h: "handleCoAPRequest A encode stack tv i ?r q ld method (sv_blocks sv)
        (sv_queue sv) = Inr (calls, s', queue')"
      and sv': "sv' = sv\<lparr>sv_blocks := s', sv_queue := queue'\<rparr>"
    using assms(4,5) by (auto simp: request_to_def res_simps)
  obtain j where e: "blocks_inv A s'" "queue_effect calls (i, j) (sv_queue sv) queue'"
      "accepted_response calls \<longrightarrow> j < length (r_methods ?r)"
    using handleCoAPRequest_effect [OF assms(1) ok(2) assms(3) ok(1) h] by blast
  then have "list_all (live_source (sv_resources sv)) (rq_contents queue')"
    using ok(3) assms(4) by (auto simp: queue_effect_def live_source_def split: if_splits)
  then show ?thesis
    using assms(2) e by (auto simp: sv' request_effect_def server_ok_def queue_effect_def)
qed

lemma request_to_defined [defined_intros]:
  assumes "cache_frame A" and "server_ok A sv" and "large_data_ok ld" and "i < length (sv_resources sv)"
    and "length (path_bytes (sv_resources sv ! i)) < 255" and "length stack = 256"
  shows "defined (request_to A encode stack tv i q ld method sv)"
proof -
  have "defined (handleCoAPRequest A encode stack tv i (sv_resources sv ! i) q ld method
      (sv_blocks sv) (sv_queue sv))"
    using assms by (intro handleCoAPRequest_defined) (auto simp: server_ok_def)
  then show ?thesis using assms(4) by (auto simp: request_to_def intro: defined_ebind)
qed


lemma server_ok_add_resource:
  assumes "server_ok A sv" and "servable r"
  shows "server_ok A (sv\<lparr>sv_resources := sv_resources sv @ [r], sv_world := w\<rparr>)"
proof -
  have "live_source (sv_resources sv @ [r]) item" if "live_source (sv_resources sv) item" for item
    using that by (auto simp: live_source_def nth_append)
  then show ?thesis using assms by (auto simp: server_ok_def list_all_iff)
qed

lemma server_ok_world [simp]: "server_ok A (sv\<lparr>sv_world := w\<rparr>) = server_ok A sv"
  by (simp add: server_ok_def)

lemma instantiate_config_dynamic [simp]: "dynamic (instantiate_config it uri sm) = dynamic it"
  by (simp add: instantiate_config_def)

text \<open>The resource made for a dynamic request.\<close>

lemma dynamic_resource:
  assumes "new_Resource (instantiate_config it uri sm) dir w = Inr (r, w1)"
    and "attach r w1 = Inr (ret, r', w')" and "resource_config_ok it" and "dynamic it"
  shows "ret = 0 \<and> servable r' \<and> dynamic (r_config r') \<and> getPath r' = uri"
proof -
  have "servable r" by (rule new_Resource_servable [OF assms(1) instantiate_config_ok [OF assms(3)]])
  moreover have "r_config r = instantiate_config it uri sm" by (rule new_Resource_result(1) [OF assms(1)])
  ultimately show ?thesis
    using attach_keeps [OF assms(2)] attach_servable_ret [OF _ assms(2)] assms(4)
    by (simp add: servable_def getPath_def)
qed

abbreviation forward_request ::
  "('c, 'q, 'e) cache_api \<Rightarrow> (nat \<Rightarrow> u32 \<Rightarrow> bytes) \<Rightarrow> bytes \<Rightarrow> timeval \<Rightarrow> 'q \<Rightarrow> large_data \<Rightarrow>
   ResourceMethodType \<Rightarrow> 'c server \<Rightarrow> (pdu_call list \<times> 'c server) res" where
  "forward_request A encode stack tv q ld method \<equiv>
     (\<lambda>sv. request_to A encode stack tv (length (sv_resources sv) - 1) q ld method sv)"

lemma dynamic_loop_effect:
  assumes A: "cache_frame A" and ld: "large_data_ok ld" and ok: "server_ok A sv"
    and its: "list_all (\<lambda>c. resource_config_ok c \<and> dynamic c) its"
    and run: "dynamic_loop rx (forward_request A encode stack tv q ld method) uri method its sv =
      Inr (calls, sv')"
  shows "request_effect A uri calls sv sv'"
  using its run
proof (induction its)
  case Nil
  then show ?case using ok by (auto simp: request_effect_def)
next
  case (Cons it its)
  obtain m where m: "rx (resourcePath it) uri = Inr m"
    using Cons.prems(2) by (auto simp: dynamic_loop.simps(2) res_simps)
  show ?case
  proof (cases m)
    case None
    then show ?thesis using Cons m by (simp add: dynamic_loop.simps(2))
  next
    case (Some sm)
    note step = dynamic_loop_match [of rx it uri sm _ "method" its sv, OF m [unfolded Some]]
    show ?thesis
    proof (cases "has_method method it")
      case False
      then show ?thesis using Cons.prems(2) ok by (auto simp: step request_effect_def)
    next
      case True
      from Cons.prems(2) True obtain r w1 ret r' w' where
        r: "new_Resource (instantiate_config it uri sm) (logDir (sv_endpoint sv)) (sv_world sv) =
          Inr (r, w1)" "attach r w1 = Inr (ret, r', w')"
        by (auto simp: step res_simps)
      have r': "ret = 0" "servable r'" "dynamic (r_config r')" "getPath r' = uri"
        using dynamic_resource [OF r] Cons.prems(1) by auto
      let ?sv1 = "sv\<lparr>sv_resources := sv_resources sv @ [r'], sv_world := w'\<rparr>"
      have "request_to A encode stack tv (length (sv_resources ?sv1) - 1) q ld method ?sv1 =
          Inr (calls, sv')"
        using Cons.prems(2) True r r'(1) by (simp add: step)
      from request_to_effect [OF A server_ok_add_resource [OF ok r'(2)] ld _ this, of uri]
      show ?thesis using r'(3,4) by (auto simp: request_effect_def)
    qed
  qed
qed

text \<open>\<open>regex_match\<close> and the file and command operations fail with exceptions only.\<close>

lemma defined_write_time [defined_intros]: "defined (last_write_time p w)"
  by (simp add: last_write_time_def split: option.split)

lemma setValue_defined [defined_intros]: "defined (setValue v r w)"
  by (auto simp: setValue_def write_file_def Let_def intro!: defined_intros)

lemma new_ResourceMethod_defined [defined_intros]: "defined (new_ResourceMethod c)"
proof -
  have "defined (emap createResourceFormatter fs)" for fs
    by (induction fs) (auto simp: createResourceFormatter_def intro!: defined_intros)
  then show ?thesis by (auto simp: new_ResourceMethod_def intro!: defined_intros)
qed

lemma add_methods_defined [defined_intros]: "defined (add_methods cfg dir its r w)"
  by (induction its arbitrary: r w)
    (auto simp: open_log_def no_log_file_def Let_def intro!: defined_intros)

lemma new_Resource_defined [defined_intros]: "defined (new_Resource cfg dir w)"
  by (auto simp: new_Resource_def intro!: defined_intros)

lemma attach_defined [defined_intros]: "defined (attach r w)"
  by (auto simp: attach_def Let_def split_beta setValue_string_def intro!: defined_intros)

lemma dynamic_loop_defined:
  assumes A: "cache_frame A" and ld: "large_data_ok ld" and ok: "server_ok A sv"
    and its: "list_all (\<lambda>c. resource_config_ok c \<and> dynamic c) its"
    and rx: "\<And>ex. defined (rx ex uri)" and uri: "length uri < 255" and st: "length stack = 256"
  shows "defined (dynamic_loop rx (forward_request A encode stack tv q ld method) uri method its sv)"
  using its
proof (induction its)
  case (Cons it its)
  have "defined (request_to A encode stack tv (length (sv_resources sv1) - 1) q ld method sv1)"
    if "new_Resource (instantiate_config it uri sm) dir w = Inr (r, w1)"
      "attach r w1 = Inr (ret, r', w')" "sv1 = sv\<lparr>sv_resources := sv_resources sv @ [r'], sv_world := w'\<rparr>"
    for sm dir w r w1 ret r' w' sv1
  proof -
    have r': "servable r'" "getPath r' = uri" using dynamic_resource [OF that(1,2)] Cons.prems by auto
    have "length (c_string uri) < 255"
      using uri by (simp add: c_string_def le_less_trans [OF length_takeWhile_le])
    then show ?thesis
      using server_ok_add_resource [OF ok r'(1)] r'(2)
      by (intro request_to_defined [OF A _ ld _ _ st]) (simp_all add: that(3) path_bytes_def)
  qed
  then show ?case
    using Cons rx [of "resourcePath it"]
    by (auto simp: dynamic_loop.simps(2) split: option.split intro!: defined_intros)
qed simp

section \<open>Queued requests\<close>

lemma get_loop_keeps:
  "get_loop run env m data first fs sss r w = Inr (sss', r', w') \<Longrightarrow>
   r_config r' = r_config r \<and> r_methods r' = r_methods r"
proof (induction fs arbitrary: first sss r w)
  case (Cons f fs)
  then obtain sss1 r1 w1 where s: "r1 = r \<or> (\<exists>v. setValue v r w = Inr (r1, w1))"
      "get_loop run env m data False fs sss1 r1 w1 = Inr (sss', r', w')"
    by (auto simp: res_simps setValue_string_def split: if_splits)
  then have "r_config r1 = r_config r \<and> r_methods r1 = r_methods r" using setValue_keeps by blast
  with Cons.IH [OF s(2)] show ?case by simp
qed simp

lemma handleRequestQueueItem_keeps:
  assumes "handleRequestQueueItem localtime run env m item r w = Inr (ret, r', w')"
  shows "r_config r' = r_config r \<and> r_methods r' = r_methods r"
  using assms get_loop_keeps setValue_keeps
  by (fastforce simp: handleRequestQueueItem_def res_simps split: if_splits ResourceMethodType.splits)

lemma format_and_run_defined [defined_intros]: "defined (format_and_run run env r m data f sss)"
  by (auto simp: format_and_run_def executeCmd_def Let_def split: cmd_outcome.split
      intro!: defined_intros)

lemma get_loop_defined [defined_intros]: "defined (get_loop run env m data first fs sss r w)"
  by (induction fs arbitrary: first sss r w)
    (auto simp: setValue_string_def intro!: defined_intros)

lemma put_loop_defined [defined_intros]: "defined (put_loop run env r m data fs sss)"
  by (induction fs arbitrary: sss) (auto intro!: defined_intros)

lemma handleRequestQueueItem_defined [defined_intros]:
  "defined (handleRequestQueueItem localtime run env m item r w)"
  by (cases "getMethodType m") (auto simp: handleRequestQueueItem_def intro!: defined_intros)

lemma process_item_effect:
  assumes "process_item localtime run env item sv = Inr sv'"
  shows "\<exists>rs w. sv' = sv\<lparr>sv_resources := rs, sv_world := w\<rparr> \<and> same_methods (sv_resources sv) rs"
proof -
  obtain i j where src: "item_src item = (i, j)" by fastforce
  have i: "i < length (sv_resources sv)"
    using assms by (auto simp: process_item_def src res_simps load_at_def split: if_splits)
  then obtain m ret r' w' where
    "handleRequestQueueItem localtime run env m item (sv_resources sv ! i) (sv_world sv) = Inr (ret, r', w')"
    "sv' = sv\<lparr>sv_resources := (sv_resources sv)[i := r'], sv_world := w'\<rparr>"
    using assms by (auto simp: process_item_def src res_simps)
  then show ?thesis using same_methods_update [OF i] handleRequestQueueItem_keeps by blast
qed

lemma process_item_defined:
  assumes "live_source (sv_resources sv) item"
  shows "defined (process_item localtime run env item sv)"
  using assms
  by (auto simp: process_item_def live_source_def split_beta intro!: defined_intros)

text \<open>The start: attaching keeps methods and configurations.\<close>

lemma attach_all_keeps:
  "attach_all rs w = Inr (ret, rs', w') \<Longrightarrow> same_methods rs rs'"
proof (induction rs arbitrary: w ret rs' w')
  case (Cons r rs)
  have same: "same_methods xs xs" for xs
    by (simp add: same_methods_def list_all2_conv_all_nth)
  obtain ret1 r1 w1 where a: "attach r w = Inr (ret1, r1, w1)"
    using Cons.prems by (auto simp: res_simps)
  show ?case
  proof (cases "ret1 = 0")
    case True
    then obtain ret2 rs2 w2 where "attach_all rs w1 = Inr (ret2, rs2, w2)" "rs' = r1 # rs2"
      using Cons.prems a by (auto simp: res_simps)
    then show ?thesis using Cons.IH attach_keeps [OF a] by (simp add: same_methods_def)
  next
    case False
    then show ?thesis using Cons.prems a attach_keeps [OF a] same by (auto simp: same_methods_def)
  qed
qed (simp add: same_methods_def)

text \<open>Resources without a data file can always be attached.\<close>

lemma attach_all_plain:
  "\<forall>r \<in> set rs. servable r \<and> r_dataFilePath r = [] \<Longrightarrow> \<exists>rs' w'. attach_all rs w = Inr (0, rs', w')"
proof (induction rs arbitrary: w)
  case (Cons r rs)
  then have "servable r" "can_store r w" "r_dataFilePath r = []" by (simp_all add: can_store_def)
  then obtain r' w1 where "attach r w = Inr (0, r', w1)" using attach_no_file by blast
  with Cons.IH [of w1] Cons.prems show ?case by auto
qed simp

end
