(* ===== verification/ProgramThreads.thy ===== *)
theory ProgramThreads
  imports ServerInvariant Lifetimes
begin

text \<open>
  The running program (\<open>src/main.cpp\<close>): the main thread inside \<open>coap.exec\<close>, the request handler
  thread, the value update thread and the signal handler, interleaved. A step of a thread is one
  iteration step of its loop with at most one call that touches shared state, so this level treats
  those calls as atomic; \<open>QueueThreads\<close> and \<open>ValueThreads\<close> look inside them.
\<close>

section \<open>State\<close>

text \<open>
  \<open>main\<close> after its start: testing \<open>_exit_now\<close>, inside \<open>coap_io_process\<close>, in the two calls of
  \<open>join\<close>, at the end where the server is destroyed, returned.
\<close>

datatype main_pc =
  MainTest | MainIo | JoinQueueThread | JoinUpdateThread | MainExit | Returned int

text \<open>
  \<open>_requestQueueThread\<close>: testing \<open>_exit_now\<close>, before \<open>queue.count()\<close>, before \<open>queue.dequeue()\<close>, with
  an item in hand, in \<open>sleep_for\<close>, returned.
\<close>

datatype handler_pc =
  HandlerTest | HandlerPoll | HandlerDequeue | HandlerItem request_item | HandlerSleep | HandlerDone

text \<open>\<open>_valueUpdateThread\<close>: the loop of \<open>CoAPServer::valueUpdate\<close> is before resource \<open>i\<close>.\<close>

datatype updater_pc = UpdaterTest | UpdaterAt nat | UpdaterSleep | UpdaterDone

text \<open>
  \<open>pg_failed\<close> is the exception or undefined behaviour that ended the program: none of the threads
  catches anything. Ghost state: the live objects, the items accepted into the queue and those that
  were handled, and the answers given.
\<close>

record 'c program =
  pg_server :: "'c server"
  pg_exit :: bool
  pg_main :: main_pc
  pg_handler :: handler_pc
  pg_updater :: updater_pc
  pg_failed :: "failure option"
  pg_live :: "object set"
  pg_accepted :: "request_item list"
  pg_handled :: "request_item list"
  pg_answers :: "pdu_call list list"

text \<open>\<open>static\<close> resources point into the configuration, so no configuration of theirs is live.\<close>

definition program_start :: "'c server \<Rightarrow> 'c program" where
  "program_start sv = \<lparr>pg_server = sv, pg_exit = False, pg_main = MainTest, pg_handler = HandlerTest,
     pg_updater = UpdaterTest, pg_failed = None, pg_live = server_objects {} sv, pg_accepted = [],
     pg_handled = [], pg_answers = []\<rparr>"

text \<open>
  What the program runs in: the libraries it is a parameter of, and the entries of a libcoap cache.
\<close>

record ('c, 'q, 'e) surroundings =
  the_cache :: "('c, 'q, 'e) cache_api"
  cache_entries :: "'c \<Rightarrow> 'e list"
  the_encode :: "nat \<Rightarrow> u32 \<Rightarrow> bytes"
  the_matcher :: regex_matcher
  the_localtime :: "int \<Rightarrow> tm"
  the_runner :: cmd_runner
  the_environment :: "string \<Rightarrow> string option"

section \<open>The threads\<close>

definition attempt :: "'a res \<Rightarrow> ('a \<Rightarrow> 'c program \<Rightarrow> 'c program) \<Rightarrow> 'c program \<Rightarrow> 'c program" where
  "attempt m f p = (case m of Inl e \<Rightarrow> p\<lparr>pg_failed := Some e\<rparr> | Inr a \<Rightarrow> f a p)"

definition handler_turn :: "('c, 'q, 'e) surroundings \<Rightarrow> 'c program \<Rightarrow> 'c program" where
  "handler_turn E p = (let sv = pg_server p in case pg_handler p of
       HandlerTest \<Rightarrow> p\<lparr>pg_handler := (if pg_exit p then HandlerDone else HandlerPoll)\<rparr>
     | HandlerPoll \<Rightarrow> attempt (count (sv_queue sv)) (\<lambda>n p.
         p\<lparr>pg_handler := (if n \<noteq> 0 then HandlerDequeue else HandlerSleep)\<rparr>) p
     | HandlerDequeue \<Rightarrow> attempt (dequeue (sv_queue sv)) (\<lambda>(item, queue) p.
         p\<lparr>pg_handler := HandlerItem item, pg_server := sv\<lparr>sv_queue := queue\<rparr>\<rparr>) p
     | HandlerItem item \<Rightarrow>
         attempt (process_item (the_localtime E) (the_runner E) (the_environment E) item sv) (\<lambda>sv' p.
           p\<lparr>pg_handler := HandlerPoll, pg_server := sv', pg_handled := pg_handled p @ [item]\<rparr>) p
     | HandlerSleep \<Rightarrow> p\<lparr>pg_handler := HandlerTest\<rparr>
     | HandlerDone \<Rightarrow> p)"

text \<open>\<open>(*it)->valueUpdate()\<close> for resource \<open>i\<close>.\<close>

definition update_resource :: "nat \<Rightarrow> 'c server \<Rightarrow> 'c server" where
  "update_resource i sv = (case valueUpdate (sv_resources sv ! i) (sv_world sv) of
     (r, w) \<Rightarrow> sv\<lparr>sv_resources := (sv_resources sv)[i := r], sv_world := w\<rparr>)"

definition updater_turn :: "'c program \<Rightarrow> 'c program" where
  "updater_turn p = (let sv = pg_server p in case pg_updater p of
       UpdaterTest \<Rightarrow> p\<lparr>pg_updater := (if pg_exit p then UpdaterDone else UpdaterAt 0)\<rparr>
     | UpdaterAt i \<Rightarrow>
         if i < length (sv_resources sv)
         then p\<lparr>pg_updater := UpdaterAt (Suc i), pg_server := update_resource i sv\<rparr>
         else p\<lparr>pg_updater := UpdaterSleep\<rparr>
     | UpdaterSleep \<Rightarrow> p\<lparr>pg_updater := UpdaterTest\<rparr>
     | UpdaterDone \<Rightarrow> p)"

text \<open>\<open>_signal_handler\<close>, on whichever thread the signal interrupts.\<close>

definition signal_handler :: "'c program \<Rightarrow> 'c program" where
  "signal_handler p = p\<lparr>pg_exit := True\<rparr>"

text \<open>
  A handler that libcoap called has returned: the answer goes out. The ghost state notes what came
  into the queue and, for a new resource, the objects it and its copied configuration are.
\<close>

definition new_objects :: "'c server \<Rightarrow> 'c server \<Rightarrow> object set" where
  "new_objects sv sv' =
     (\<Union>i \<in> {length (sv_resources sv)..<length (sv_resources sv')}.
        resource_objects True (i, sv_resources sv' ! i))"

definition answered :: "pdu_call list \<times> 'c server \<Rightarrow> 'c program \<Rightarrow> 'c program" where
  "answered = (\<lambda>(calls, sv') p.
     p\<lparr>pg_server := sv', pg_live := pg_live p \<union> new_objects (pg_server p) sv',
       pg_accepted := pg_accepted p @
         drop (length (rq_contents (sv_queue (pg_server p)))) (rq_contents (sv_queue sv')),
       pg_answers := pg_answers p @ [calls]\<rparr>)"

text \<open>
  The actions: a turn of a thread (for the main thread also the return of \<open>coap_io_process\<close>), a
  request to a resource or to the handler of unknown paths (with the contents of the stack and the
  time), the end of a cache entry, the signal, and any change of the files, their permissions and the
  clock by others.
\<close>

datatype ('q, 'e) action =
    MainTurn
  | HandlerTurn
  | UpdaterTurn
  | Request nat ResourceMethodType 'q large_data bytes timeval
  | UnknownRequest "string option" ResourceMethodType 'q large_data bytes timeval
  | EntryExpires 'e
  | Signal
  | WorldChanges "string \<Rightarrow> file_entry option" int "string \<Rightarrow> bool" "string \<Rightarrow> bool" "string \<Rightarrow> bool"

definition alive :: "'c program \<Rightarrow> bool" where
  "alive p \<longleftrightarrow> pg_failed p = None \<and> (\<forall>ret. pg_main p \<noteq> Returned ret)"

text \<open>
  The steps. libcoap calls handlers only inside \<open>coap_io_process\<close>, on data as \<open>coap_get_data_large\<close>
  describes it. Threads that have returned and a \<open>join\<close> on a running thread take no step.
\<close>

inductive step ::
  "('c, 'q, 'e) surroundings \<Rightarrow> 'c program \<Rightarrow> ('q, 'e) action \<Rightarrow> 'c program \<Rightarrow> bool" for E where
  main_test: "alive p \<Longrightarrow> pg_main p = MainTest \<Longrightarrow>
    step E p MainTurn (p\<lparr>pg_main := (if pg_exit p then JoinQueueThread else MainIo)\<rparr>)"
| main_io_returns: "alive p \<Longrightarrow> pg_main p = MainIo \<Longrightarrow> step E p MainTurn (p\<lparr>pg_main := MainTest\<rparr>)"
| join_queue_thread: "alive p \<Longrightarrow> pg_main p = JoinQueueThread \<Longrightarrow> pg_handler p = HandlerDone \<Longrightarrow>
    step E p MainTurn (p\<lparr>pg_main := JoinUpdateThread\<rparr>)"
| join_update_thread: "alive p \<Longrightarrow> pg_main p = JoinUpdateThread \<Longrightarrow> pg_updater p = UpdaterDone \<Longrightarrow>
    step E p MainTurn (p\<lparr>pg_main := MainExit\<rparr>)"
| main_exit: "alive p \<Longrightarrow> pg_main p = MainExit \<Longrightarrow>
    step E p MainTurn
      (attempt (delete_CoAPServer (the_cache E) (cache_entries E (bs_cache (sv_blocks (pg_server p))))
          (pg_server p) (pg_live p))
        (\<lambda>(blocks, live) p. p\<lparr>pg_main := Returned 0, pg_live := live,
           pg_server := (pg_server p)\<lparr>sv_blocks := blocks\<rparr>\<rparr>) p)"
| handler: "alive p \<Longrightarrow> pg_handler p \<noteq> HandlerDone \<Longrightarrow> step E p HandlerTurn (handler_turn E p)"
| updater: "alive p \<Longrightarrow> pg_updater p \<noteq> UpdaterDone \<Longrightarrow> step E p UpdaterTurn (updater_turn p)"
| request: "alive p \<Longrightarrow> pg_main p = MainIo \<Longrightarrow> i < length (sv_resources (pg_server p)) \<Longrightarrow>
    large_data_ok ld \<Longrightarrow> length stack = 256 \<Longrightarrow>
    step E p (Request i method q ld stack tv)
      (attempt (request_to (the_cache E) (the_encode E) stack tv i q ld method (pg_server p)) answered p)"
| unknown_request: "alive p \<Longrightarrow> pg_main p = MainIo \<Longrightarrow> large_data_ok ld \<Longrightarrow> length stack = 256 \<Longrightarrow>
    step E p (UnknownRequest uri method q ld stack tv)
      (attempt (handleDynamicRequest (the_matcher E) (the_cache E) (the_encode E) stack tv q ld uri
        method (pg_server p)) answered p)"
| entry_expires: "alive p \<Longrightarrow> pg_main p = MainIo \<Longrightarrow>
    step E p (EntryExpires e)
      (attempt (expire_entry (the_cache E) e (sv_blocks (pg_server p)))
        (\<lambda>blocks p. p\<lparr>pg_server := (pg_server p)\<lparr>sv_blocks := blocks\<rparr>\<rparr>) p)"
| signal: "alive p \<Longrightarrow> step E p Signal (signal_handler p)"
| world_changes: "alive p \<Longrightarrow>
    step E p (WorldChanges fs t readable writable mkdir)
      (p\<lparr>pg_server := (pg_server p)\<lparr>sv_world := (sv_world (pg_server p))\<lparr>files := fs, clock := t,
         can_read := readable, can_write := writable, can_mkdir := mkdir\<rparr>\<rparr>\<rparr>)"

inductive_cases main_turnE: "step E p MainTurn p'"
inductive_simps step_handler: "step E p HandlerTurn p'"
inductive_simps step_updater: "step E p UpdaterTurn p'"
inductive_simps step_request: "step E p (Request i method q ld stack tv) p'"
inductive_simps step_unknown: "step E p (UnknownRequest uri method q ld stack tv) p'"

text \<open>Executions: the actions taken, and the state they lead to.\<close>

inductive execution ::
  "('c, 'q, 'e) surroundings \<Rightarrow> 'c program \<Rightarrow> ('q, 'e) action list \<Rightarrow> 'c program \<Rightarrow> bool" for E where
  stop: "execution E p [] p"
| go: "step E p a p' \<Longrightarrow> execution E p' as p'' \<Longrightarrow> execution E p (a # as) p''"

lemma execution_alive: "step E p a p' \<Longrightarrow> alive p"
  by (cases rule: step.cases) auto

text \<open>An invariant of the steps with actions from \<open>I\<close> holds after every execution with such actions.\<close>

lemma execution_invariant:
  assumes "execution E p as p'" and "P p" and "list_all I as"
    and "\<And>p a p'. P p \<Longrightarrow> step E p a p' \<Longrightarrow> I a \<Longrightarrow> P p'"
  shows "P p'"
  using assms(1-3)
proof induction
  case (go p a p' as p'')
  then show ?case using assms(4) by simp
qed simp


section \<open>The invariant\<close>

definition in_hand :: "'c program \<Rightarrow> request_item list" where
  "in_hand p = (case pg_handler p of HandlerItem item \<Rightarrow> [item] | _ \<Rightarrow> [])"

definition threads_ok :: "'c program \<Rightarrow> bool" where
  "threads_ok p \<longleftrightarrow>
     list_all (live_source (sv_resources (pg_server p))) (in_hand p) \<and>
     (pg_handler p = HandlerDequeue \<longrightarrow> rq_contents (sv_queue (pg_server p)) \<noteq> []) \<and>
     (\<forall>i. pg_updater p = UpdaterAt i \<longrightarrow> i \<le> length (sv_resources (pg_server p)))"

text \<open>Every accepted item is handled, in hand or in the queue, in this order; and was answered so.\<close>

definition items_ok :: "'c program \<Rightarrow> bool" where
  "items_ok p \<longleftrightarrow>
     pg_accepted p = pg_handled p @ in_hand p @ rq_contents (sv_queue (pg_server p)) \<and>
     length (filter accepted_response (pg_answers p)) = length (pg_accepted p)"

text \<open>How far \<open>main\<close> is, and what the threads have done by then.\<close>

definition main_stage :: "main_pc \<Rightarrow> nat" where
  "main_stage pc = (case pc of
     MainTest \<Rightarrow> 0 | MainIo \<Rightarrow> 0 | JoinQueueThread \<Rightarrow> 1 | JoinUpdateThread \<Rightarrow> 2 | MainExit \<Rightarrow> 3
   | Returned _ \<Rightarrow> 4)"

definition joins_ok :: "'c program \<Rightarrow> bool" where
  "joins_ok p \<longleftrightarrow>
     (pg_handler p = HandlerDone \<or> pg_updater p = UpdaterDone \<or> 0 < main_stage (pg_main p) \<longrightarrow> pg_exit p) \<and>
     (2 \<le> main_stage (pg_main p) \<longrightarrow> pg_handler p = HandlerDone) \<and>
     (3 \<le> main_stage (pg_main p) \<longrightarrow> pg_updater p = UpdaterDone)"

text \<open>The resources with a configuration of their own are those whose configuration says dynamic.\<close>

definition owning :: "'c server \<Rightarrow> nat set" where
  "owning sv = {i. i < length (sv_resources sv) \<and> dynamic (r_config (sv_resources sv ! i))}"

definition objects_ok :: "'c program \<Rightarrow> bool" where
  "objects_ok p \<longleftrightarrow>
     (main_stage (pg_main p) = 4 \<longrightarrow> pg_main p = Returned 0 \<and> pg_live p = {}) \<and>
     (main_stage (pg_main p) < 4 \<longrightarrow>
        pg_live p = server_objects (owning (pg_server p)) (pg_server p))"

definition program_ok :: "('c, 'q, 'e) cache_api \<Rightarrow> 'c program \<Rightarrow> bool" where
  "program_ok A p \<longleftrightarrow> server_ok A (pg_server p) \<and> threads_ok p \<and> items_ok p \<and> joins_ok p \<and> objects_ok p"

lemmas program_ok_defs = program_ok_def threads_ok_def items_ok_def joins_ok_def objects_ok_def

lemma failed_ok [simp]: "program_ok A (p\<lparr>pg_failed := e\<rparr>) = program_ok A p"
  by (simp add: program_ok_defs in_hand_def)

lemma attempt_ok:
  assumes "program_ok A p" and "\<And>a. m = Inr a \<Longrightarrow> program_ok A (f a p)"
  shows "program_ok A (attempt m f p)"
  using assms by (simp add: attempt_def split: sum.split)

lemma same_methods_refl [simp]: "same_methods rs rs"
  by (simp add: same_methods_def list_all2_conv_all_nth)

lemma same_methods_length: "same_methods rs rs' \<Longrightarrow> length rs' = length rs"
  by (simp add: same_methods_def list_all2_lengthD)

lemma server_objects_same:
  assumes "same_methods (sv_resources sv) (sv_resources sv')" and "sv_pki sv' = sv_pki sv"
  shows "server_objects (owning sv') sv' = server_objects (owning sv) sv"
proof -
  let ?rs = "sv_resources sv" and ?rs' = "sv_resources sv'"
  have len: "length ?rs' = length ?rs" using assms(1) by (rule same_methods_length)
  have same: "r_methods (?rs' ! i) = r_methods (?rs ! i)" "r_config (?rs' ! i) = r_config (?rs ! i)"
    if "i < length ?rs" for i
    using that assms(1) by (auto simp: same_methods_def list_all2_conv_all_nth)
  then have own: "owning sv' = owning sv" using len by (auto simp: owning_def)
  have objects: "(\<Union>ir \<in> set (enumerate 0 rs). resource_objects (fst ir \<in> own) ir) =
      (\<Union>i \<in> {..<length rs}. resource_objects (i \<in> own) (i, rs ! i))" for rs own
    by (simp add: set_enumerate)
  have "resource_objects b (i, ?rs' ! i) = resource_objects b (i, ?rs ! i)" if "i < length ?rs" for b i
    using same [OF that] by (simp add: resource_objects_def)
  then show ?thesis by (simp add: server_objects_def assms(2) objects len own)
qed

text \<open>Changes that leave the queue and the methods alone.\<close>

lemma program_ok_server:
  assumes "program_ok A p" and "server_ok A sv" and "same_methods (sv_resources (pg_server p)) (sv_resources sv)"
    and "sv_queue sv = sv_queue (pg_server p)" and "sv_pki sv = sv_pki (pg_server p)"
  shows "program_ok A (p\<lparr>pg_server := sv\<rparr>)"
proof -
  have "live_source (sv_resources sv) = live_source (sv_resources (pg_server p))"
    using same_methods_live [OF assms(3)] by (simp add: fun_eq_iff)
  then show ?thesis
    using assms server_objects_same [OF assms(3,5)] same_methods_length [OF assms(3)]
    by (simp add: program_ok_defs in_hand_def)
qed


section \<open>Every step keeps the invariant\<close>

lemma handler_turn_ok:
  assumes ok: "program_ok A p"
  shows "program_ok A (handler_turn E p)"
proof -
  let ?sv = "pg_server p" and ?q = "sv_queue (pg_server p)"
  have sv: "server_ok A ?sv" and q: "rq_wf ?q" "list_all (live_source (sv_resources ?sv)) (rq_contents ?q)"
    using ok by (auto simp: program_ok_def server_ok_def)
  show ?thesis
  proof (cases "pg_handler p")
    case HandlerTest
    then show ?thesis
      using ok by (auto simp: handler_turn_def Let_def program_ok_defs in_hand_def)
  next
    case HandlerPoll
    then show ?thesis
      using ok count_contents [OF q(1)] rq_contents_length [of ?q]
      by (auto simp: handler_turn_def Let_def attempt_def program_ok_defs in_hand_def
          simp del: rq_contents_length)
  next
    case HandlerDequeue
    then obtain x xs where c: "rq_contents ?q = x # xs"
      using ok by (auto simp: program_ok_defs neq_Nil_conv)
    obtain queue where d: "dequeue ?q = Inr (x, queue)" "rq_wf queue" "rq_contents queue = xs"
      using dequeue_front [OF q(1) c] by blast
    let ?sv' = "?sv\<lparr>sv_queue := queue\<rparr>"
    have "server_ok A ?sv'" using sv q(2) c d by (simp add: server_ok_def)
    moreover have "server_objects (owning ?sv') ?sv' = server_objects (owning ?sv) ?sv"
      by (rule server_objects_same) simp_all
    ultimately show ?thesis
      using HandlerDequeue ok c d q(2)
      by (simp add: handler_turn_def Let_def attempt_def program_ok_defs in_hand_def)
  next
    case (HandlerItem item)
    show ?thesis
    proof (cases "process_item (the_localtime E) (the_runner E) (the_environment E) item ?sv")
      case (Inl e)
      then show ?thesis using ok HandlerItem by (simp add: handler_turn_def Let_def attempt_def)
    next
      case (Inr sv')
      obtain rs w where sv': "sv' = ?sv\<lparr>sv_resources := rs, sv_world := w\<rparr>"
          "same_methods (sv_resources ?sv) rs"
        using process_item_effect [OF Inr] by blast
      have "program_ok A (p\<lparr>pg_server := sv'\<rparr>)"
        by (rule program_ok_server [OF ok])
          (use sv' server_ok_same_methods [OF sv sv'(2)] in simp_all)
      then show ?thesis
        using HandlerItem Inr by (simp add: handler_turn_def Let_def attempt_def program_ok_defs in_hand_def)
    qed
  next
    case HandlerSleep
    then show ?thesis using ok by (simp add: handler_turn_def Let_def program_ok_defs in_hand_def)
  next
    case HandlerDone
    then show ?thesis using ok by (simp add: handler_turn_def Let_def)
  qed
qed

lemma updater_turn_ok:
  assumes ok: "program_ok A p"
  shows "program_ok A (updater_turn p)"
proof (cases "\<exists>i. pg_updater p = UpdaterAt i \<and> i < length (sv_resources (pg_server p))")
  case True
  let ?sv = "pg_server p"
  obtain i where i: "pg_updater p = UpdaterAt i" "i < length (sv_resources ?sv)" using True by blast
  obtain r w where u: "valueUpdate (sv_resources ?sv ! i) (sv_world ?sv) = (r, w)" by fastforce
  have same: "same_methods (sv_resources ?sv) ((sv_resources ?sv)[i := r])"
    by (rule same_methods_update [OF i(2)]) (use valueUpdate_keeps [OF u] in simp_all)
  have sv: "server_ok A ?sv" using ok by (simp add: program_ok_def)
  have "program_ok A (p\<lparr>pg_server := update_resource i ?sv\<rparr>)"
    by (rule program_ok_server [OF ok])
      (use same server_ok_same_methods [OF sv same] u in \<open>simp_all add: update_resource_def\<close>)
  then show ?thesis
    using i u by (simp add: updater_turn_def Let_def update_resource_def program_ok_defs in_hand_def)
next
  case False
  then show ?thesis
    using ok by (cases "pg_updater p") (auto simp: updater_turn_def Let_def program_ok_defs in_hand_def)
qed

text \<open>A handler that libcoap called.\<close>

lemma new_resource_objects:
  assumes "sv_resources sv' = sv_resources sv @ rs" and "list_all (\<lambda>r. dynamic (r_config r)) rs"
    and "sv_pki sv' = sv_pki sv"
  shows "server_objects (owning sv') sv' = server_objects (owning sv) sv \<union> new_objects sv sv'"
proof -
  let ?n = "length (sv_resources sv)" and ?n' = "length (sv_resources sv')"
  have objects: "(\<Union>ir \<in> set (enumerate 0 xs). resource_objects (fst ir \<in> own) ir) =
      (\<Union>i \<in> {..<length xs}. resource_objects (i \<in> own) (i, xs ! i))" for xs own
    by (simp add: set_enumerate)
  have split: "{..<?n'} = {..<?n} \<union> {?n..<?n'}" using assms(1) by auto
  have old: "resource_objects (i \<in> owning sv') (i, sv_resources sv' ! i) =
      resource_objects (i \<in> owning sv) (i, sv_resources sv ! i)" if "i < ?n" for i
    using that assms(1) by (simp add: owning_def nth_append)
  have "i \<in> owning sv'" if "i \<in> {?n..<?n'}" for i
    using that assms(1,2) by (auto simp: owning_def nth_append list_all_length)
  then have "(\<Union>i \<in> {?n..<?n'}. resource_objects (i \<in> owning sv') (i, sv_resources sv' ! i)) =
      new_objects sv sv'"
    by (simp add: new_objects_def)
  then show ?thesis using old by (simp add: server_objects_def objects split UN_Un Un_assoc assms(3))
qed

lemma answered_ok:
  assumes ok: "program_ok A p" and main: "pg_main p = MainIo"
    and effect: "request_effect A uri calls (pg_server p) sv'"
  shows "program_ok A (answered (calls, sv') p)"
proof -
  let ?sv = "pg_server p"
  obtain new where new: "sv_resources sv' = sv_resources ?sv @ new"
      "list_all (\<lambda>r. dynamic (r_config r)) new"
    using effect by (auto simp: request_effect_def list_all_iff)
  have objects: "server_objects (owning sv') sv' = pg_live p \<union> new_objects ?sv sv'"
    using new_resource_objects [OF new] effect ok main
    by (simp add: request_effect_def program_ok_def objects_ok_def main_stage_def)
  have "live_source (sv_resources ?sv @ new) item" if "live_source (sv_resources ?sv) item" for item
    using that by (auto simp: live_source_def nth_append)
  then have "threads_ok (answered (calls, sv') p)"
    using ok effect new(1)
    by (fastforce simp: program_ok_def threads_ok_def answered_def in_hand_def request_effect_def
        list_all_iff split: if_splits)
  moreover have "items_ok (answered (calls, sv') p)"
    using ok effect
    by (auto simp: program_ok_def items_ok_def answered_def in_hand_def request_effect_def
        simp del: rq_contents_length split: if_splits)
  ultimately show ?thesis
    using ok effect objects main
    by (simp add: program_ok_def joins_ok_def objects_ok_def answered_def request_effect_def
        main_stage_def)
qed

lemma destroyed_ok:
  assumes "cache_frame A" and ok: "program_ok A p" and main: "pg_main p = MainExit"
  shows "\<exists>blocks. delete_CoAPServer A es (pg_server p) (pg_live p) = Inr (blocks, {}) \<and>
    program_ok A (p\<lparr>pg_main := Returned 0, pg_live := {},
      pg_server := (pg_server p)\<lparr>sv_blocks := blocks\<rparr>\<rparr>)"
proof -
  let ?sv = "pg_server p"
  have live: "pg_live p = server_objects (owning ?sv) ?sv" and b: "blocks_inv A (sv_blocks ?sv)"
    using ok main by (auto simp: program_ok_defs main_stage_def server_ok_def)
  obtain blocks where d: "delete_CoAPServer A es ?sv (pg_live p) = Inr (blocks, {})" "blocks_inv A blocks"
    using delete_CoAPServer_releases [OF assms(1) b, of "owning ?sv" es] live
    by (auto simp: owning_def)
  then show ?thesis
    using ok main by (simp add: program_ok_defs in_hand_def main_stage_def server_ok_def)
qed

lemma handleDynamicRequest_effect:
  assumes "cache_frame A" and "server_ok A sv" and "large_data_ok ld"
    and "handleDynamicRequest rx A encode stack tv q ld uri method sv = Inr (calls, sv')"
  shows "request_effect A (c_string (the uri)) calls sv sv'"
proof (cases uri)
  case None
  then show ?thesis using assms(2,4) by (auto simp: handleDynamicRequest_def request_effect_def)
next
  case (Some u)
  have "list_all (\<lambda>c. resource_config_ok c \<and> dynamic c) (sv_dynamic sv)"
    using assms(2) by (simp add: server_ok_def)
  from dynamic_loop_effect [OF assms(1,3,2) this, of rx encode stack tv q "method"] show ?thesis
    using assms(4) by (simp add: handleDynamicRequest_def Some)
qed

lemma step_ok:
  assumes A: "cache_frame (the_cache E)" and ok: "program_ok (the_cache E) p" and st: "step E p a p'"
  shows "program_ok (the_cache E) p'"
  using st
proof cases
  case main_test
  then show ?thesis using ok by (auto simp: program_ok_defs in_hand_def main_stage_def)
next
  case main_io_returns
  then show ?thesis using ok by (auto simp: program_ok_defs in_hand_def main_stage_def)
next
  case join_queue_thread
  then show ?thesis using ok by (auto simp: program_ok_defs in_hand_def main_stage_def)
next
  case join_update_thread
  then show ?thesis using ok by (auto simp: program_ok_defs in_hand_def main_stage_def)
next
  case main_exit
  then show ?thesis
    using destroyed_ok [OF A ok, of "cache_entries E (bs_cache (sv_blocks (pg_server p)))"]
    by (auto simp: attempt_def)
next
  case handler
  then show ?thesis using handler_turn_ok [OF ok] by simp
next
  case updater
  then show ?thesis using updater_turn_ok [OF ok] by simp
next
  case (request i ld stack meth q tv)
  have sv: "server_ok (the_cache E) (pg_server p)" using ok by (simp add: program_ok_def)
  show ?thesis
    unfolding request(2)
    using request_to_effect [OF A sv request(6,5)]
    by (intro attempt_ok [OF ok]) (auto intro!: answered_ok [OF ok request(4)])
next
  case (unknown_request ld stack uri meth q tv)
  have sv: "server_ok (the_cache E) (pg_server p)" using ok by (simp add: program_ok_def)
  show ?thesis
    unfolding unknown_request(2)
    using handleDynamicRequest_effect [OF A sv unknown_request(5)]
    by (intro attempt_ok [OF ok]) (auto intro!: answered_ok [OF ok unknown_request(4)])
next
  case (entry_expires e)
  let ?sv = "pg_server p"
  have sv: "server_ok (the_cache E) ?sv" using ok by (simp add: program_ok_def)
  then obtain blocks where b: "expire_entry (the_cache E) e (sv_blocks ?sv) = Inr blocks"
      "blocks_inv (the_cache E) blocks"
    using expire_entry_safe [OF A, of "sv_blocks ?sv" e] by (auto simp: server_ok_def)
  then have "server_ok (the_cache E) (?sv\<lparr>sv_blocks := blocks\<rparr>)" using sv by (simp add: server_ok_def)
  then show ?thesis
    unfolding entry_expires(2) b(1) attempt_def by (simp add: program_ok_server [OF ok])
next
  case signal
  then show ?thesis using ok by (simp add: signal_handler_def program_ok_defs in_hand_def)
next
  case world_changes
  have "server_ok (the_cache E) (pg_server p)" using ok by (simp add: program_ok_def)
  then show ?thesis unfolding world_changes(2) by (intro program_ok_server [OF ok]) simp_all
qed


lemma execution_ok:
  assumes "execution E p as p'" and "cache_frame (the_cache E)" and "program_ok (the_cache E) p"
  shows "program_ok (the_cache E) p'"
  by (rule execution_invariant [where P = "program_ok (the_cache E)" and I = "\<lambda>_. True", OF assms(1,3)])
    (use step_ok [OF assms(2)] in \<open>auto simp: list_all_iff\<close>)

section \<open>No undefined behaviour\<close>

text \<open>
  The conditions: paths of less than 255 characters (see \<open>long_path_unterminated\<close> for others), and a
  regular expression engine that gives matches or throws.
\<close>

definition short_paths :: "'c server \<Rightarrow> bool" where
  "short_paths sv \<longleftrightarrow> list_all (\<lambda>r. length (path_bytes r) < 255) (sv_resources sv)"

definition short_uri :: "('q, 'e) action \<Rightarrow> bool" where
  "short_uri a \<longleftrightarrow> (case a of
       UnknownRequest (Some u) method q ld stack tv \<Rightarrow> length (c_string u) < 255 | _ \<Rightarrow> True)"

definition safe :: "'c program \<Rightarrow> bool" where
  "safe p \<longleftrightarrow> short_paths (pg_server p) \<and> (\<forall>msg. pg_failed p \<noteq> Some (Undefined msg))"

lemma same_methods_short:
  assumes "same_methods (sv_resources sv) (sv_resources sv')"
  shows "short_paths sv' = short_paths sv"
  using assms
  by (auto simp: short_paths_def same_methods_def list_all2_conv_all_nth list_all_length
      path_bytes_def getPath_def)

lemma attempt_safe:
  assumes "safe p" and "defined m" and "\<And>a. m = Inr a \<Longrightarrow> safe (f a p)"
  shows "safe (attempt m f p)"
  using assms by (auto simp: attempt_def safe_def defined_def split: sum.split)

lemma handler_turn_safe:
  assumes ok: "program_ok A p" and safe: "safe p"
  shows "safe (handler_turn E p)"
proof -
  let ?q = "sv_queue (pg_server p)"
  have q: "rq_wf ?q" using ok by (simp add: program_ok_def server_ok_def)
  show ?thesis
  proof (cases "pg_handler p")
    case HandlerPoll
    then show ?thesis
      using safe count_contents [OF q]
      by (simp add: handler_turn_def Let_def attempt_def safe_def)
  next
    case HandlerDequeue
    then obtain x xs where "rq_contents ?q = x # xs"
      using ok by (auto simp: program_ok_defs neq_Nil_conv)
    from dequeue_front [OF q this] obtain queue where "dequeue ?q = Inr (x, queue)" by blast
    then show ?thesis
      using HandlerDequeue safe
      by (simp add: handler_turn_def Let_def attempt_def safe_def short_paths_def)
  next
    case (HandlerItem item)
    then have "live_source (sv_resources (pg_server p)) item"
      using ok by (simp add: program_ok_defs in_hand_def)
    from process_item_defined [OF this] show ?thesis
      unfolding handler_turn_def Let_def HandlerItem handler_pc.case
    proof (rule attempt_safe [OF safe])
      fix sv'
      assume "process_item (the_localtime E) (the_runner E) (the_environment E) item (pg_server p) =
        Inr sv'"
      from process_item_effect [OF this] same_methods_short [of "pg_server p" sv'] safe
      show "safe (p\<lparr>pg_handler := HandlerPoll, pg_server := sv', pg_handled := pg_handled p @ [item]\<rparr>)"
        by (auto simp: safe_def)
    qed
  qed (use safe in \<open>simp_all add: handler_turn_def Let_def safe_def\<close>)
qed

lemma updater_turn_safe: "safe p \<Longrightarrow> safe (updater_turn p)"
proof -
  assume safe: "safe p"
  have "short_paths (update_resource i (pg_server p)) = short_paths (pg_server p)"
    if i: "i < length (sv_resources (pg_server p))" for i
  proof (rule same_methods_short)
    obtain r w where u: "valueUpdate (sv_resources (pg_server p) ! i) (sv_world (pg_server p)) = (r, w)"
      by fastforce
    show "same_methods (sv_resources (pg_server p)) (sv_resources (update_resource i (pg_server p)))"
      using same_methods_update [OF i] valueUpdate_keeps [OF u] by (simp add: update_resource_def u)
  qed
  then show ?thesis using safe by (auto simp: updater_turn_def Let_def safe_def split: updater_pc.split)
qed

lemma answered_safe:
  assumes "safe p" and "request_effect A uri calls (pg_server p) sv'"
    and "sv_resources sv' \<noteq> sv_resources (pg_server p) \<Longrightarrow> length uri < 255"
  shows "safe (answered (calls, sv') p)"
proof -
  obtain new where new: "sv_resources sv' = sv_resources (pg_server p) @ new"
      "list_all (\<lambda>r. getPath r = uri) new"
    using assms(2) by (auto simp: request_effect_def list_all_iff)
  have "length (path_bytes r) < 255" if "r \<in> set new" for r
  proof -
    have "length (c_string uri) \<le> length uri" by (simp add: c_string_def length_takeWhile_le)
    moreover have "length uri < 255" using assms(3) new(1) that by force
    ultimately show ?thesis
      using that new(2) by (simp add: path_bytes_def list_all_iff)
  qed
  then show ?thesis
    using assms(1) new(1) by (auto simp: safe_def short_paths_def answered_def list_all_iff)
qed

lemma step_safe:
  assumes A: "cache_frame (the_cache E)" and rx: "\<And>ex uri. defined (the_matcher E ex uri)"
    and ok: "program_ok (the_cache E) p" and safe: "safe p"
    and st: "step E p a p'" and a: "short_uri a"
  shows "safe p'"
  using st
proof cases
  case main_exit
  let ?es = "cache_entries E (bs_cache (sv_blocks (pg_server p)))"
  obtain blocks where "delete_CoAPServer (the_cache E) ?es (pg_server p) (pg_live p) = Inr (blocks, {})"
    using destroyed_ok [OF A ok main_exit(4), of ?es] by blast
  then show ?thesis
    using safe unfolding main_exit(2) by (simp add: attempt_def safe_def short_paths_def)
next
  case handler
  then show ?thesis using handler_turn_safe [OF ok safe] by simp
next
  case updater
  then show ?thesis using updater_turn_safe [OF safe] by simp
next
  case (request i ld stack meth q tv)
  have sv: "server_ok (the_cache E) (pg_server p)" using ok by (simp add: program_ok_def)
  have "length (path_bytes (sv_resources (pg_server p) ! i)) < 255"
    using safe request(5) by (simp add: safe_def short_paths_def list_all_length)
  from request_to_defined [OF A sv request(6,5) this request(7)]
  show ?thesis
    unfolding request(2)
  proof (rule attempt_safe [OF safe])
    fix ans
    assume r: "request_to (the_cache E) (the_encode E) stack tv i q ld meth (pg_server p) = Inr ans"
    then show "safe (answered ans p)"
      using request_to_effect [OF A sv request(6,5), of _ stack tv q meth "fst ans" "snd ans" "[]"]
        answered_safe [OF safe, of "the_cache E" "[]" "fst ans" "snd ans"]
      by auto
  qed
next
  case (unknown_request ld stack uri meth q tv)
  have sv: "server_ok (the_cache E) (pg_server p)" using ok by (simp add: program_ok_def)
  have uri: "length (c_string (the uri)) < 255" if "uri \<noteq> None"
    using a that by (auto simp: unknown_request(1) short_uri_def)
  have its: "list_all (\<lambda>c. resource_config_ok c \<and> dynamic c) (sv_dynamic (pg_server p))"
    using sv by (simp add: server_ok_def)
  have "defined (handleDynamicRequest (the_matcher E) (the_cache E) (the_encode E) stack tv q ld uri
      meth (pg_server p))"
    using dynamic_loop_defined [OF A unknown_request(5) sv its rx _ unknown_request(6)] uri
    by (auto simp: handleDynamicRequest_def split: option.split)
  then show ?thesis
    unfolding unknown_request(2)
  proof (rule attempt_safe [OF safe])
    fix ans
    assume r: "handleDynamicRequest (the_matcher E) (the_cache E) (the_encode E) stack tv q ld uri
      meth (pg_server p) = Inr ans"
    have "sv_resources (snd ans) = sv_resources (pg_server p)" if "uri = None"
      using r that by (auto simp: handleDynamicRequest_def)
    then show "safe (answered ans p)"
      using handleDynamicRequest_effect [OF A sv unknown_request(5), of _ _ stack tv q uri meth
          "fst ans" "snd ans"] r uri
        answered_safe [OF safe, of "the_cache E" "c_string (the uri)" "fst ans" "snd ans"]
      by auto
  qed
next
  case (entry_expires e)
  obtain blocks where "expire_entry (the_cache E) e (sv_blocks (pg_server p)) = Inr blocks"
    using expire_entry_safe [OF A, of "sv_blocks (pg_server p)" e] ok
    by (auto simp: program_ok_def server_ok_def)
  then show ?thesis using safe unfolding entry_expires(2) by (simp add: attempt_def safe_def short_paths_def)
qed (use safe in \<open>simp_all add: safe_def short_paths_def signal_handler_def\<close>)


section \<open>Shutdown\<close>

declare handler_pc.case_cong_weak [cong del] updater_pc.case_cong_weak [cong del]

text \<open>The actions of the program's own threads, as opposed to requests and events from outside.\<close>

definition thread_turn :: "('q, 'e) action \<Rightarrow> bool" where
  "thread_turn a \<longleftrightarrow> a = MainTurn \<or> a = HandlerTurn \<or> a = UpdaterTurn"

text \<open>
  Once the main thread has left its loop, how many turns each thread still has: the handler thread
  first empties the queue if it is in its inner loop, three turns for each item.
\<close>

definition handler_left :: "'c program \<Rightarrow> nat" where
  "handler_left p = (let n = length (rq_contents (sv_queue (pg_server p))) in case pg_handler p of
       HandlerTest \<Rightarrow> 1 | HandlerPoll \<Rightarrow> 3 * n + 3 | HandlerDequeue \<Rightarrow> 3 * n + 2
     | HandlerItem _ \<Rightarrow> 3 * n + 4 | HandlerSleep \<Rightarrow> 2 | HandlerDone \<Rightarrow> 0)"

definition updater_left :: "'c program \<Rightarrow> nat" where
  "updater_left p = (case pg_updater p of
       UpdaterTest \<Rightarrow> 1 | UpdaterAt i \<Rightarrow> length (sv_resources (pg_server p)) - i + 3
     | UpdaterSleep \<Rightarrow> 2 | UpdaterDone \<Rightarrow> 0)"

definition shutdown_left :: "'c program \<Rightarrow> nat" where
  "shutdown_left p =
     (if pg_failed p \<noteq> None then 0
      else handler_left p + updater_left p + (4 - main_stage (pg_main p)))"

lemmas left_defs = shutdown_left_def handler_left_def updater_left_def

lemma shutdown_left_bound:
  "0 < main_stage (pg_main p) \<Longrightarrow>
   shutdown_left p \<le>
     3 * length (rq_contents (sv_queue (pg_server p))) + length (sv_resources (pg_server p)) + 10"
proof -
  assume "0 < main_stage (pg_main p)"
  moreover have "handler_left p \<le> 3 * length (rq_contents (sv_queue (pg_server p))) + 4"
    by (simp add: handler_left_def Let_def split: handler_pc.split)
  moreover have "updater_left p \<le> length (sv_resources (pg_server p)) + 3"
    by (simp add: updater_left_def split: updater_pc.split)
  ultimately show ?thesis by (auto simp: shutdown_left_def)
qed

lemma handler_turn_left:
  assumes ok: "program_ok A p" and "pg_handler p \<noteq> HandlerDone" and "pg_exit p"
    and "pg_failed (handler_turn E p) = None"
  shows "handler_left (handler_turn E p) < handler_left p"
    and "updater_left (handler_turn E p) = updater_left p"
proof -
  let ?sv = "pg_server p"
  have q: "rq_wf (sv_queue ?sv)" using ok by (simp add: program_ok_def server_ok_def)
  note turn = handler_turn_def Let_def attempt_def
  have "handler_left (handler_turn E p) < handler_left p \<and>
    updater_left (handler_turn E p) = updater_left p"
  proof (cases "pg_handler p")
    case HandlerPoll
    then show ?thesis
      using count_contents [OF q]
      by (auto simp: turn handler_left_def updater_left_def simp del: rq_contents_length)
  next
    case HandlerDequeue
    then obtain x xs where c: "rq_contents (sv_queue ?sv) = x # xs"
      using ok by (auto simp: program_ok_defs neq_Nil_conv)
    from dequeue_front [OF q this] obtain queue where
      "dequeue (sv_queue ?sv) = Inr (x, queue)" "rq_contents queue = xs" by blast
    then show ?thesis
      using HandlerDequeue c
      by (simp add: turn handler_left_def updater_left_def del: rq_contents_length)
  next
    case (HandlerItem item)
    obtain sv' where sv':
      "process_item (the_localtime E) (the_runner E) (the_environment E) item ?sv = Inr sv'"
      using assms(4) HandlerItem by (auto simp: turn split: sum.splits)
    with process_item_effect [OF sv'] same_methods_length show ?thesis
      using HandlerItem by (auto simp: turn handler_left_def updater_left_def)
  qed (use assms(2,3) in \<open>simp_all add: turn handler_left_def updater_left_def\<close>)
  then show "handler_left (handler_turn E p) < handler_left p"
    "updater_left (handler_turn E p) = updater_left p" by simp_all
qed

lemma turn_frame [simp]:
  "pg_main (handler_turn E p) = pg_main p" "pg_exit (handler_turn E p) = pg_exit p"
  "pg_main (updater_turn p) = pg_main p" "pg_exit (updater_turn p) = pg_exit p"
  "pg_failed (updater_turn p) = pg_failed p" "pg_accepted (updater_turn p) = pg_accepted p"
  "pg_accepted (handler_turn E p) = pg_accepted p" "pg_handled (updater_turn p) = pg_handled p"
  "pg_handler (updater_turn p) = pg_handler p"
  by (simp_all add: handler_turn_def updater_turn_def Let_def attempt_def
      split: handler_pc.split updater_pc.split sum.split prod.split)

lemma updater_turn_left:
  assumes "pg_updater p \<noteq> UpdaterDone" and "pg_exit p"
  shows "updater_left (updater_turn p) < updater_left p"
    and "handler_left (updater_turn p) = handler_left p"
proof -
  have "length (sv_resources (update_resource i sv)) = length (sv_resources sv)"
    "sv_queue (update_resource i sv) = sv_queue sv" for i and sv :: "'a server"
    by (simp_all add: update_resource_def split_beta)
  then show "updater_left (updater_turn p) < updater_left p"
    "handler_left (updater_turn p) = handler_left p"
    using assms
    by (auto simp: updater_turn_def Let_def updater_left_def handler_left_def
        split: updater_pc.split)
qed

lemma shutdown_step:
  assumes ok: "program_ok A p" and main: "0 < main_stage (pg_main p)" and st: "step E p a p'"
  shows "0 < main_stage (pg_main p')"
    and "shutdown_left p' + (if thread_turn a then 1 else 0) \<le> shutdown_left p"
proof -
  have alive: "pg_failed p = None" "main_stage (pg_main p) < 4"
    using execution_alive [OF st] by (auto simp: alive_def main_stage_def split: main_pc.splits)
  have ex: "pg_exit p" using ok main by (simp add: program_ok_def joins_ok_def)
  have "0 < main_stage (pg_main p') \<and>
    shutdown_left p' + (if thread_turn a then 1 else 0) \<le> shutdown_left p"
    using st
  proof cases
    case main_exit
    then show ?thesis
      using alive
      by (auto simp: attempt_def left_defs main_stage_def split: sum.split)
  next
    case handler
    then show ?thesis
      using handler_turn_left [OF ok handler(4) ex, of E] main alive
      by (cases "pg_failed (handler_turn E p) = None") (auto simp: shutdown_left_def)
  next
    case updater
    then show ?thesis
      using updater_turn_left [OF updater(4) ex] main alive by (auto simp: shutdown_left_def)
  qed (use main alive in \<open>auto simp: main_stage_def left_defs thread_turn_def signal_handler_def\<close>)
  then show "0 < main_stage (pg_main p')"
    "shutdown_left p' + (if thread_turn a then 1 else 0) \<le> shutdown_left p" by simp_all
qed

text \<open>Until \<open>main\<close> has returned, some thread can move.\<close>

lemma shutdown_progress:
  assumes "program_ok A p" and "alive p" and "0 < main_stage (pg_main p)"
  shows "\<exists>a p'. thread_turn a \<and> step E p a p'"
proof (cases "pg_main p")
  case JoinQueueThread
  then show ?thesis
    using assms(2) step.join_queue_thread [of p E] step.handler [of p E]
    by (cases "pg_handler p = HandlerDone") (auto simp: thread_turn_def)
next
  case JoinUpdateThread
  then show ?thesis
    using assms(2) step.join_update_thread [of p E] step.updater [of p E]
    by (cases "pg_updater p = UpdaterDone") (auto simp: thread_turn_def)
next
  case MainExit
  then show ?thesis using assms(2) step.main_exit [of p E] by (auto simp: thread_turn_def)
qed (use assms in \<open>auto simp: main_stage_def alive_def\<close>)

definition count_turns :: "(('q, 'e) action \<Rightarrow> bool) \<Rightarrow> ('q, 'e) action list \<Rightarrow> nat" where
  "count_turns P as = length (filter P as)"

lemma count_turns_simps [simp]:
  "count_turns P [] = 0" "count_turns P (a # as) = (if P a then 1 else 0) + count_turns P as"
  by (simp_all add: count_turns_def)

lemma shutdown_execution:
  assumes "execution E p as p'" and "cache_frame (the_cache E)" and "program_ok (the_cache E) p"
    and "0 < main_stage (pg_main p)"
  shows "program_ok (the_cache E) p' \<and> 0 < main_stage (pg_main p') \<and>
    count_turns thread_turn as + shutdown_left p' \<le> shutdown_left p"
  using assms
proof induction
  case (go p a p1 as p')
  note ok1 = step_ok [OF go.prems(1,2) go.hyps(1)]
  note st = shutdown_step [OF go.prems(2,3) go.hyps(1)]
  from go.IH [OF go.prems(1) ok1 st(1)] st(2) show ?case by simp
qed simp

section \<open>Handling what was accepted\<close>

text \<open>
  While the program is not asked to stop: how many turns the handler thread needs at most until it
  has handled item number \<open>k\<close>.
\<close>

definition handling_left :: "nat \<Rightarrow> 'c program \<Rightarrow> nat" where
  "handling_left k p =
     (if k < length (pg_handled p) then 0
      else 3 * (k - length (pg_handled p)) + (case pg_handler p of
        HandlerItem _ \<Rightarrow> 1 | HandlerDequeue \<Rightarrow> 2 | HandlerPoll \<Rightarrow> 3 | HandlerTest \<Rightarrow> 4 | HandlerSleep \<Rightarrow> 5
      | HandlerDone \<Rightarrow> 5))"

lemma handling_left_bound: "handling_left k p \<le> 3 * (Suc k - length (pg_handled p)) + 2"
  by (auto simp: handling_left_def Suc_diff_le not_less split: handler_pc.split)

lemma word_of_nat_nonzero: "0 < n \<Longrightarrow> n < 2 ^ 64 \<Longrightarrow> (word_of_nat n :: size_t) \<noteq> 0"
  by (metis less_irrefl unat_0 unat_small)

lemma handler_turn_handling:
  assumes ok: "program_ok A p" and run: "\<not> pg_exit p" and k: "k < length (pg_accepted p)"
    and nf: "pg_failed (handler_turn E p) = None"
  shows "handling_left k (handler_turn E p) \<le> handling_left k p - 1"
proof -
  let ?sv = "pg_server p"
  have q: "rq_wf (sv_queue ?sv)" using ok by (simp add: program_ok_def server_ok_def)
  note turn = handler_turn_def Let_def attempt_def
  show ?thesis
  proof (cases "pg_handler p")
    case HandlerPoll
    have "rq_contents (sv_queue ?sv) \<noteq> []" if "\<not> k < length (pg_handled p)"
      using that ok k HandlerPoll
      by (auto simp: program_ok_def items_ok_def in_hand_def simp del: rq_contents_length)
    moreover have "rq_capacity (sv_queue ?sv) < 2 ^ 64"
      using q by (auto simp: rq_wf_def rq_capacity_def)
    then have "length (rq_contents (sv_queue ?sv)) < 2 ^ 64"
      using ring.within [OF q] by (rule le_less_trans [rotated])
    ultimately have "word_of_nat (length (rq_contents (sv_queue ?sv))) \<noteq> (0 :: size_t)"
      if "\<not> k < length (pg_handled p)"
      using that by (intro word_of_nat_nonzero) (auto simp del: rq_contents_length)
    then show ?thesis
      using HandlerPoll count_contents [OF q]
      by (auto simp: turn handling_left_def simp del: rq_contents_length)
  next
    case HandlerDequeue
    then obtain x xs where c: "rq_contents (sv_queue ?sv) = x # xs"
      using ok by (auto simp: program_ok_defs neq_Nil_conv)
    from dequeue_front [OF q this] obtain queue where
      "dequeue (sv_queue ?sv) = Inr (x, queue)" by blast
    then show ?thesis using HandlerDequeue by (simp add: turn handling_left_def)
  next
    case (HandlerItem item)
    obtain sv' where
      "process_item (the_localtime E) (the_runner E) (the_environment E) item ?sv = Inr sv'"
      using nf HandlerItem by (auto simp: turn split: sum.splits)
    then show ?thesis using HandlerItem by (auto simp: turn handling_left_def)
  next
    case HandlerDone
    then show ?thesis using ok run by (simp add: program_ok_defs)
  qed (use run in \<open>simp_all add: turn handling_left_def\<close>)
qed

lemma handling_step:
  assumes ok: "program_ok A p" and run: "\<not> pg_exit p" and k: "k < length (pg_accepted p)"
    and st: "step E p a p'" and a: "a \<noteq> Signal" and nf: "pg_failed p' = None"
  shows "handling_left k p' \<le> handling_left k p - (if a = HandlerTurn then 1 else 0)"
    and "\<not> pg_exit p'" and "\<exists>ys. pg_accepted p' = pg_accepted p @ ys"
proof -
  have "handling_left k p' \<le> handling_left k p - (if a = HandlerTurn then 1 else 0) \<and>
    \<not> pg_exit p' \<and> (\<exists>ys. pg_accepted p' = pg_accepted p @ ys)"
    using st
  proof cases
    case handler
    then show ?thesis using handler_turn_handling [OF ok run k] nf run by simp
  qed (use run a nf in \<open>auto simp: handling_left_def attempt_def answered_def split: sum.splits\<close>)
  then show "handling_left k p' \<le> handling_left k p - (if a = HandlerTurn then 1 else 0)"
    "\<not> pg_exit p'" "\<exists>ys. pg_accepted p' = pg_accepted p @ ys" by auto
qed

lemma failed_stays: "execution E p as p' \<Longrightarrow> pg_failed p' = None \<Longrightarrow> pg_failed p = None"
  by (induction rule: execution.induct) (auto dest: execution_alive simp: alive_def)

lemma handling_execution:
  assumes "execution E p as p'" and "cache_frame (the_cache E)" and "program_ok (the_cache E) p"
    and "\<not> pg_exit p" and "k < length (pg_accepted p)" and "list_all (\<lambda>a. a \<noteq> Signal) as"
    and "pg_failed p' = None"
  shows "program_ok (the_cache E) p' \<and> (\<exists>ys. pg_accepted p' = pg_accepted p @ ys) \<and>
    handling_left k p' \<le> handling_left k p - count_turns (\<lambda>a. a = HandlerTurn) as"
  using assms
proof induction
  case (go p a p1 as p')
  have nf: "pg_failed p1 = None" by (rule failed_stays [OF go.hyps(2) go.prems(6)])
  have a: "a \<noteq> Signal" using go.prems(5) by simp
  note st = handling_step [OF go.prems(2,3,4) go.hyps(1) a nf]
  have k1: "k < length (pg_accepted p1)" using st(3) go.prems(4) by auto
  note ok1 = step_ok [OF go.prems(1,2) go.hyps(1)]
  from go.IH [OF go.prems(1) ok1 st(2) k1 _ go.prems(6)] go.prems(5) st(1,3) show ?case by auto
qed simp


section \<open>From the start\<close>

text \<open>A server as \<open>main\<close> starts its threads with it.\<close>

definition ready :: "('c, 'q, 'e) cache_api \<Rightarrow> 'c server \<Rightarrow> bool" where
  "ready A sv \<longleftrightarrow> server_ok A sv \<and> rq_contents (sv_queue sv) = [] \<and>
     list_all (\<lambda>r. \<not> dynamic (r_config r)) (sv_resources sv)"

lemma program_start_ok:
  assumes "ready A sv"
  shows "program_ok A (program_start sv)"
proof -
  have "owning sv = {}" using assms by (auto simp: ready_def owning_def list_all_length)
  then show ?thesis
    using assms by (simp add: ready_def program_ok_defs program_start_def in_hand_def main_stage_def)
qed

lemma started_execution:
  assumes "execution E (program_start sv) as p" and "ready (the_cache E) sv"
    and "cache_frame (the_cache E)"
  shows "program_ok (the_cache E) p"
  by (rule execution_ok [OF assms(1,3) program_start_ok [OF assms(2)]])

lemma started_execution_safe:
  assumes "execution E (program_start sv) as p" and "ready (the_cache E) sv"
    and "cache_frame (the_cache E)" and "\<And>ex uri. defined (the_matcher E ex uri)"
    and "short_paths sv" and "list_all short_uri as"
  shows "safe p"
proof -
  have "safe (program_start sv)" using assms(5) by (simp add: safe_def program_start_def)
  with program_start_ok [OF assms(2)] have
    start: "program_ok (the_cache E) (program_start sv) \<and> safe (program_start sv)" by blast
  have "program_ok (the_cache E) p \<and> safe p"
    by (rule execution_invariant [where P = "\<lambda>p. program_ok (the_cache E) p \<and> safe p",
          OF assms(1) start assms(6)])
      (use step_ok [OF assms(3)] step_safe [OF assms(3,4)] in blast)
  then show ?thesis by simp
qed

lemma main_start_serving:
  assumes "main_start P argv blocks d w = Inr (Serving sv)"
  shows "\<exists>path conf ep (opts :: options) sv0. load_Config (json_calls P) (json_parse P) (read_text P) path = Inr conf \<and>
    new_CoAPServer (dtls_supported P) (tls_supported P) (conf\<lparr>config_endpoint := ep\<rparr>)
      (new_RequestQueue d (queueSize opts)) blocks w = Inr sv0 \<and> init (host P) sv0 = Inr (0, sv)"
proof -
  obtain opts conf ep where c: "load_Config (json_calls P) (json_parse P) (read_text P) (configPath opts) = Inr conf"
      "override_port opts (config_endpoint conf) = Inr ep"
      "main_start P argv blocks d w = (case ep of
         None \<Rightarrow> Inr (ExitCode 1)
       | Some ep1 \<Rightarrow>
           if \<not> queue_fits P (queueSize opts) then Inl (LibraryThrow ''std::bad_alloc'')
           else
             ebind (new_CoAPServer (dtls_supported P) (tls_supported P)
                 (conf\<lparr>config_endpoint := override_rest opts ep1\<rparr>)
                 (new_RequestQueue d (queueSize opts)) blocks w) (\<lambda>sv.
             ebind (init (host P) sv) (\<lambda>(r, sv1).
               Inr (if r \<noteq> 0 then ExitCode (-1) else Serving sv1))))"
    using assms by (clarsimp simp: main_start_def res_simps Let_def split: if_split_asm)
  with assms obtain ep1 sv0 where n:
    "new_CoAPServer (dtls_supported P) (tls_supported P)
      (conf\<lparr>config_endpoint := override_rest opts ep1\<rparr>)
      (new_RequestQueue d (queueSize opts)) blocks w = Inr sv0" "init (host P) sv0 = Inr (0, sv)"
    by (cases ep) (auto simp: res_simps split: if_splits)
  show ?thesis by (intro exI conjI) (rule c(1), rule n(1), rule n(2))
qed

lemma main_start_ready:
  assumes "main_start P argv blocks d w = Inr (Serving sv)" and "blocks_inv A blocks"
    and "0 < unat (maxSize (sv_queue sv))" and "unat (maxSize (sv_queue sv)) \<le> 2 ^ 63"
  shows "ready A sv"
proof -
  obtain path conf ep sv0 and opts :: options where
    conf: "load_Config (json_calls P) (json_parse P) (read_text P) path = Inr conf" and
    sv0: "new_CoAPServer (dtls_supported P) (tls_supported P) (conf\<lparr>config_endpoint := ep\<rparr>)
      (new_RequestQueue d (queueSize opts)) blocks w = Inr sv0" and
    init: "init (host P) sv0 = Inr (0, sv)"
    using main_start_serving [OF assms(1)] by blast
  have ok: "list_all resource_config_ok (config_resources conf)"
    using conf build_Config_ok by (auto simp: load_Config_def res_simps split: option.splits)
  obtain sv1 where sv1: "add_resources (config_resources conf) sv1 = Inr sv0" "sv_resources sv1 = []"
      "sv_dynamic sv1 = []" "sv_queue sv1 = new_RequestQueue d (queueSize opts)" "sv_blocks sv1 = blocks"
    using sv0 by (auto simp: new_CoAPServer_def Let_def split: if_splits)
  note split = add_resources_split [OF sv1(1)]
  have "map r_config (sv_resources sv0) = filter (\<lambda>c. \<not> dynamic c) (config_resources conf)"
    using split sv1(2) by simp
  then have "r_config ` set (sv_resources sv0) \<subseteq> {c. \<not> dynamic c}"
    by (metis (no_types, lifting) list.set_map mem_Collect_eq set_filter subsetI)
  then have static: "list_all (\<lambda>r. \<not> dynamic (r_config r)) (sv_resources sv0)"
    by (auto simp: list_all_iff)
  obtain rs w' ret where a: "attach_all (sv_resources sv0) (sv_world sv0) = Inr (ret, rs, w')"
      and sv: "sv_resources sv = rs" "sv_dynamic sv = sv_dynamic sv0" "sv_queue sv = sv_queue sv0"
        "sv_blocks sv = sv_blocks sv0"
    using init by (auto simp: init_def Let_def split_beta res_simps split: if_splits)
  have same: "same_methods (sv_resources sv0) rs" by (rule attach_all_keeps [OF a])
  have "list_all (\<lambda>r. \<not> dynamic (r_config r)) rs"
    using static same by (auto simp: list_all_length same_methods_def list_all2_conv_all_nth)
  moreover have "list_all servable rs"
    using same_methods_servable [OF same] split sv1(2) ok by simp
  moreover have "rq_wf (sv_queue sv)"
    using assms(3,4) split sv1(4) sv(3) rq_wf_new [of "queueSize opts" d]
    by (simp add: new_RequestQueue_def)
  ultimately show ?thesis
    using assms(2) split sv1 sv ok
    by (auto simp: ready_def server_ok_def list_all_iff)
qed

end
