(* ===== verification/ProgramProperties.thy ===== *)
theory ProgramProperties
  imports ProgramThreads
begin

text \<open>
  Properties of the running program, over all executions from its start: what holds in every state,
  that it stops when asked to and what happens to the requests it has accepted by then.
\<close>

section \<open>Examples\<close>

definition example_surroundings :: "(simple_cache, nat, nat) surroundings" where
  "example_surroundings = \<lparr>the_cache = simple_cache_api, cache_entries = (\<lambda>_. []),
     the_encode = example_encode, the_matcher = prefix_matcher, the_localtime = example_tm,
     the_runner = (\<lambda>_ _ _ _. LaunchFailed), the_environment = Map.empty\<rparr>"

lemma example_surroundings_simps [simp]:
  "the_cache example_surroundings = simple_cache_api"
  "the_encode example_surroundings = example_encode"
  "the_matcher example_surroundings = prefix_matcher"
  by (simp_all add: example_surroundings_def)

lemma example_ready: "ready simple_cache_api example_server"
proof -
  have "servable lamp" "\<not> dynamic (r_config lamp)"
    by (auto simp: servable_def lamp_def example_resource_def example_method_def getMethodType_def
        default_resource_config_def)
  moreover have "resource_config_ok sensors" "dynamic sensors"
    by (simp_all add: resource_config_ok_def method_config_ok_def sensors_def default_method_config_def)
  moreover have "rq_wf (example_queue 4)" using example_queue_room [of 4] by simp
  ultimately show ?thesis
    by (simp add: ready_def server_ok_def example_server_def simple_cache_inv)
qed

lemma example_short: "short_paths example_server"
  by (simp add: short_paths_def example_server_def lamp_path)

text \<open>A PUT to the lamp.\<close>

abbreviation put_lamp :: "(nat, nat) action" where
  "put_lamp \<equiv> Request 0 PUT 7 (whole_body [9]) example_stack example_time"

lemma example_body_ok: "large_data_ok (whole_body [9])" "length example_stack = 256"
  by (simp_all add: large_data_ok_def whole_body_def example_stack_def)

lemma put_lamp_accepted:
  "\<exists>queue. request_to simple_cache_api example_encode example_stack example_time 0 7 (whole_body [9]) PUT
      example_server =
      Inr ([SetCode CODE_OK, SetTypeAck], example_server\<lparr>sv_blocks := empty_block_state, sv_queue := queue\<rparr>) \<and>
    rq_wf queue \<and> rq_contents queue = [queued (0, 1) [9] example_time]"
proof -
  have "sessionGetData simple_cache_api 7 (whole_body [9]) [] empty_block_state =
      Inr (1, [9], empty_block_state)"
    by (simp add: sessionGetData_single whole_body_def)
  moreover have "rq_wf (example_queue 4)" "rq_len (example_queue 4) < rq_capacity (example_queue 4)"
    using example_queue_room [of 4] by simp_all
  ultimately show ?thesis
    using request_last_block [of simple_cache_api 7 "whole_body [9]" example_server "[9]"
        empty_block_state 0 1 example_encode example_stack example_time] lamp_methods(2)
    by (auto simp: example_server_def)
qed

section \<open>Executions\<close>

lemma execution_snoc: "execution E p as p' \<Longrightarrow> step E p' a p'' \<Longrightarrow> execution E p (as @ [a]) p''"
  by (induction rule: execution.induct) (auto intro: execution.intros)

text \<open>The program after its first request, with the other threads still at the start of their loops.\<close>

definition first_request :: "pdu_call list \<Rightarrow> 'c server \<Rightarrow> 'c server \<Rightarrow> 'c program" where
  "first_request calls sv sv' = answered (calls, sv') (program_start sv\<lparr>pg_main := MainIo\<rparr>)"

lemma first_request_execution:
  assumes "request_to (the_cache E) (the_encode E) stack tv i q ld method sv = Inr (calls, sv')"
    and "i < length (sv_resources sv)" and "large_data_ok ld" and "length stack = 256"
  shows "execution E (program_start sv) [MainTurn, Request i method q ld stack tv]
    (first_request calls sv sv')"
proof -
  let ?p = "program_start sv" and ?p1 = "program_start sv\<lparr>pg_main := MainIo\<rparr>"
  have "step E ?p MainTurn ?p1"
    using step.main_test [of ?p E] by (simp add: program_start_def alive_def)
  moreover have "step E ?p1 (Request i method q ld stack tv) (first_request calls sv sv')"
    using step.request [of ?p1 i ld stack E "method" q tv] assms
    by (simp add: program_start_def alive_def attempt_def first_request_def)
  ultimately show ?thesis by (blast intro: execution.intros)
qed


text \<open>
  The signal arrives while the main thread is inside \<open>coap_io_process\<close> and the other two are about to
  test \<open>_exit_now\<close> again: all loops end. Then the main thread joins them and destroys the server.
\<close>

lemma closing_execution:
  assumes "alive p" and "pg_main p = MainIo" and "pg_handler p = HandlerTest"
    and "pg_updater p = UpdaterTest"
  shows "execution E p [Signal, HandlerTurn, UpdaterTurn, MainTurn, MainTurn]
    (p\<lparr>pg_exit := True, pg_handler := HandlerDone, pg_updater := UpdaterDone,
       pg_main := JoinQueueThread\<rparr>)"
proof -
  let ?p1 = "p\<lparr>pg_exit := True\<rparr>"
  let ?p2 = "?p1\<lparr>pg_handler := HandlerDone\<rparr>"
  let ?p3 = "?p2\<lparr>pg_updater := UpdaterDone\<rparr>"
  let ?p4 = "?p3\<lparr>pg_main := MainTest\<rparr>"
  let ?p5 = "?p4\<lparr>pg_main := JoinQueueThread\<rparr>"
  have alive: "alive ?p1" "alive ?p2" "alive ?p3" "alive ?p4" "alive ?p5"
    using assms(1) by (simp_all add: alive_def)
  have "step E p Signal ?p1" using step.signal [OF assms(1), of E] by (simp add: signal_handler_def)
  moreover have "step E ?p1 HandlerTurn ?p2"
    using step.handler [OF alive(1), of E] assms(3) by (simp add: handler_turn_def)
  moreover have "step E ?p2 UpdaterTurn ?p3"
    using step.updater [OF alive(2), of E] assms(4) by (simp add: updater_turn_def)
  moreover have "step E ?p3 MainTurn ?p4"
    using step.main_io_returns [OF alive(3), of E] assms(2) by simp
  moreover have "step E ?p4 MainTurn ?p5"
    using step.main_test [OF alive(4), of E] by simp
  ultimately show ?thesis by (auto intro!: execution.intros)
qed

lemma exit_execution:
  assumes "alive p" and "pg_main p = JoinQueueThread" and "pg_handler p = HandlerDone"
    and "pg_updater p = UpdaterDone"
  shows "execution E p [MainTurn, MainTurn] (p\<lparr>pg_main := MainExit\<rparr>)"
proof -
  let ?p1 = "p\<lparr>pg_main := JoinUpdateThread\<rparr>"
  have "alive ?p1" using assms(1) by (simp add: alive_def)
  from step.join_update_thread [OF this, of E] assms(4) have
    "step E ?p1 MainTurn (p\<lparr>pg_main := MainExit\<rparr>)" by simp
  then show ?thesis
    using step.join_queue_thread [OF assms(1-3), of E] by (blast intro: execution.intros)
qed

lemma joining_execution:
  assumes "alive p" and "pg_main p = JoinQueueThread" and "pg_handler p = HandlerDone"
    and "pg_updater p = UpdaterDone" and "program_ok (the_cache E) p" and "cache_frame (the_cache E)"
  shows "\<exists>p'. execution E p [MainTurn, MainTurn, MainTurn] p' \<and> pg_main p' = Returned 0 \<and>
    pg_failed p' = None \<and> pg_handled p' = pg_handled p \<and> pg_answers p' = pg_answers p \<and>
    pg_accepted p' = pg_accepted p"
proof -
  let ?p2 = "p\<lparr>pg_main := MainExit\<rparr>"
  let ?es = "cache_entries E (bs_cache (sv_blocks (pg_server p)))"
  have alive: "alive ?p2" using assms(1) by (simp add: alive_def)
  note e = exit_execution [OF assms(1-4), of E]
  have "program_ok (the_cache E) ?p2"
    using execution_ok [OF e assms(6,5)] .
  from destroyed_ok [OF assms(6) this, of ?es] obtain blocks where
    d: "delete_CoAPServer (the_cache E) ?es (pg_server p) (pg_live p) = Inr (blocks, {})" by auto
  let ?p3 = "p\<lparr>pg_main := Returned 0, pg_live := {},
    pg_server := (pg_server p)\<lparr>sv_blocks := blocks\<rparr>\<rparr>"
  have "step E ?p2 MainTurn ?p3"
    using step.main_exit [OF alive, of E] d by (simp add: attempt_def)
  from execution_snoc [OF e this] have "execution E p [MainTurn, MainTurn, MainTurn] ?p3" by simp
  then show ?thesis using assms(1) by (intro exI [of _ ?p3]) (simp add: alive_def)
qed

lemma execution_append: "execution E p as p' \<Longrightarrow> execution E p' bs p'' \<Longrightarrow> execution E p (as @ bs) p''"
  by (induction rule: execution.induct) (auto intro: execution.intros)

lemma first_request_state:
  "alive (first_request calls sv sv')" "pg_main (first_request calls sv sv') = MainIo"
  "pg_handler (first_request calls sv sv') = HandlerTest"
  "pg_updater (first_request calls sv sv') = UpdaterTest"
  "pg_handled (first_request calls sv sv') = []" "pg_answers (first_request calls sv sv') = [calls]"
  "pg_exit (first_request calls sv sv') = False" "pg_server (first_request calls sv sv') = sv'"
  by (simp_all add: first_request_def answered_def program_start_def alive_def)

text \<open>The example program after its first request.\<close>

lemma put_lamp_execution:
  "\<exists>p. execution example_surroundings (program_start example_server) [MainTurn, put_lamp] p \<and>
     p = first_request [SetCode CODE_OK, SetTypeAck] example_server (pg_server p) \<and>
     sv_resources (pg_server p) = [lamp] \<and> sv_world (pg_server p) = example_world \<and>
     rq_wf (sv_queue (pg_server p)) \<and>
     rq_contents (sv_queue (pg_server p)) = [queued (0, 1) [9] example_time]"
proof -
  obtain queue where q: "request_to simple_cache_api example_encode example_stack example_time 0 7
      (whole_body [9]) PUT example_server = Inr ([SetCode CODE_OK, SetTypeAck],
        example_server\<lparr>sv_blocks := empty_block_state, sv_queue := queue\<rparr>)"
      "rq_wf queue" "rq_contents queue = [queued (0, 1) [9] example_time]"
    using put_lamp_accepted by blast
  let ?p = "first_request [SetCode CODE_OK, SetTypeAck] example_server
        (example_server\<lparr>sv_blocks := empty_block_state, sv_queue := queue\<rparr>)"
  have "execution example_surroundings (program_start example_server) [MainTurn, put_lamp] ?p"
    by (rule first_request_execution) (use q example_body_ok in \<open>simp_all add: example_server_def\<close>)
  then show ?thesis
    using q(2,3) by (intro exI [of _ ?p]) (simp add: first_request_state, simp add: example_server_def)
qed

section \<open>Properties\<close>

text \<open>A host on which the example configuration is served.\<close>

definition example_env :: "(jval, unit) program_env" where
  "example_env = \<lparr>parse_command_line = (\<lambda>_. Inr \<lparr>given_help = False, given_config = None,
       given_port = None, given_addr = None, given_logdir = None, given_queue = Some 4\<rparr>),
     json_calls = jval_api, json_parse = (\<lambda>_. Inr example_json), read_text = (\<lambda>_. Some []),
     queue_fits = (\<lambda>_. True), dtls_supported = False, tls_supported = False, host = example_host\<rparr>"

lemma example_serving:
  "\<exists>sv. main_start example_env () empty_block_state (queued (0, 0) [] example_time) example_world =
     Inr (Serving sv) \<and> maxSize (sv_queue sv) = 4"
proof -
  let ?q = "example_queue 4"
  have l: "load_Config jval_api (\<lambda>_. Inr example_json) (\<lambda>_. Some []) ''config.json'' = Inr example_config"
    by (simp add: load_Config_def example_json_config)
  obtain sv0 where sv0: "new_CoAPServer False False example_config ?q empty_block_state
        example_world = Inr sv0" "list_all (\<lambda>r. r_dataFilePath r = []) (sv_resources sv0)"
      "sv_endpoint sv0 = default_endpoint_config" "sv_queue sv0 = ?q"
    by (simp add: new_CoAPServer_def example_config_def example_methods_def example_world_def
        new_Resource_def new_ResourceMethod_def createResourceFormatter_def default_endpoint_config_def
        default_resource_config_def default_method_config_def Let_def)
  have ok: "list_all resource_config_ok (config_resources example_config)"
    by (rule build_Config_ok [OF example_json_config])
  obtain sv1 where sv1: "add_resources (config_resources example_config) sv1 = Inr sv0"
      "sv_resources sv1 = []"
    using sv0(1) by (auto simp: new_CoAPServer_def Let_def split: if_splits)
  have "list_all servable (sv_resources sv1)" by (simp add: sv1(2))
  then have "list_all servable (sv_resources sv0)"
    using add_resources_split [OF sv1(1)] ok by blast
  then obtain rs w where a: "attach_all (sv_resources sv0) (sv_world sv0) = Inr (0, rs, w)"
    using attach_all_plain [of "sv_resources sv0" "sv_world sv0"] sv0(2) by (auto simp: list_all_iff)
  obtain sv where sv: "init example_host sv0 = Inr (0, sv)" "sv_queue sv = ?q"
    using init_plain [of example_host sv0 28 28 rs w] a sv0(3,4)
    by (auto simp: default_endpoint_config_def resolveAddress_def example_host_def)
  have "main_start example_env () empty_block_state (queued (0, 0) [] example_time) example_world =
      Inr (Serving sv)"
    using l sv0(1) sv(1)
    by (simp add: main_start_def handleCmdLine_def example_env_def with_default_def override_port_def
        override_rest_def Let_def)
  then show ?thesis using sv(2) by (auto simp: new_RequestQueue_def)
qed







text \<open>C10: once the main thread has left its loop, the program ends: the threads make at most as many
  turns as the bound says (three for each request still in the queue, one for each resource), and
  until \<open>main\<close> has returned 0 or an exception has ended the program some thread can move.\<close>

theorem shutdown_completes:
  assumes "ready (the_cache E) sv" and "cache_frame (the_cache E)"
    and "execution E (program_start sv) as p" and "pg_main p = JoinQueueThread"
    and "execution E p bs p'"
  shows "count_turns thread_turn bs \<le>
      3 * length (rq_contents (sv_queue (pg_server p))) + length (sv_resources (pg_server p)) + 10 \<and>
    (pg_main p' = Returned 0 \<or> pg_failed p' \<noteq> None \<or> (\<exists>a p''. thread_turn a \<and> step E p' a p''))"
proof -
  have stage: "0 < main_stage (pg_main p)" using assms(4) by (simp add: main_stage_def)
  have ok: "program_ok (the_cache E) p" by (rule started_execution [OF assms(3,1,2)])
  note run = shutdown_execution [OF assms(5,2) ok stage]
  have "pg_main p' = Returned 0" if "pg_failed p' = None" "\<not> alive p'"
    using that run by (auto simp: alive_def program_ok_def objects_ok_def main_stage_def)
  moreover have "\<exists>a p''. thread_turn a \<and> step E p' a p''" if "alive p'"
    using shutdown_progress [OF _ that] run by blast
  ultimately show ?thesis using run shutdown_left_bound [OF stage] by fastforce
qed

theorem shutdown_completes_witness:
  "\<exists>as p bs p'. execution example_surroundings (program_start example_server) as p \<and>
     pg_main p = JoinQueueThread \<and> execution example_surroundings p bs p' \<and> pg_main p' = Returned 0 \<and>
     count_turns thread_turn bs \<le>
       3 * length (rq_contents (sv_queue (pg_server p))) + length (sv_resources (pg_server p)) + 10"
proof -
  let ?E = example_surroundings
  obtain p where p: "execution ?E (program_start example_server) [MainTurn, put_lamp] p"
      "p = first_request [SetCode CODE_OK, SetTypeAck] example_server (pg_server p)"
      "sv_resources (pg_server p) = [lamp]"
      "rq_contents (sv_queue (pg_server p)) = [queued (0, 1) [9] example_time]"
    using put_lamp_execution by blast
  let ?p1 = "p\<lparr>pg_exit := True, pg_handler := HandlerDone, pg_updater := UpdaterDone,
       pg_main := JoinQueueThread\<rparr>"
  have "execution ?E p [Signal, HandlerTurn, UpdaterTurn, MainTurn, MainTurn] ?p1"
    by (rule closing_execution; subst p(2); simp add: first_request_state)
  note e1 = execution_append [OF p(1) this]
  have r: "ready (the_cache ?E) example_server" "cache_frame (the_cache ?E)"
    using example_ready simple_cache_frame by simp_all
  have "alive p" by (subst p(2)) (rule first_request_state)
  then have "alive ?p1" by (simp add: alive_def)
  from joining_execution [OF this _ _ _ started_execution [OF e1 r] r(2)] obtain p' where
    e2: "execution ?E ?p1 [MainTurn, MainTurn, MainTurn] p'" "pg_main p' = Returned 0" by auto
  from shutdown_completes [OF r e1 _ e2(1)] show ?thesis
    using e1 e2 by (intro exI [of _ ?p1] exI [of _ p'] exI [of _ "[MainTurn, MainTurn, MainTurn]"] exI conjI) auto
qed


lemma process_item_put_lamp:
  assumes "sv_resources sv = [lamp]" and "sv_world sv = example_world"
  shows "\<exists>sv'. process_item example_tm (\<lambda>_ _ _ _. LaunchFailed) Map.empty
      (queued (0, 1) [9] example_time) sv = Inr sv' \<and> sv_queue sv' = sv_queue sv"
proof -
  obtain r' w' where "handleRequestQueueItem example_tm (\<lambda>_ _ _ _. LaunchFailed) Map.empty
      (example_method PUT True) (queued (0, 1) [9] example_time) lamp example_world = Inr (0, r', w')"
    using lamp_PUT_stored by blast
  then show ?thesis using assms by (simp add: process_item_def queued_def lamp_def)
qed




text \<open>C23: a request that was accepted can be dropped at the shutdown: for every request that a server
  accepts as its first, there is an execution in which the answer is given, the program is then
  asked to stop, and \<open>main\<close> returns 0 without the request having been handled. The handler thread
  tests \<open>_exit_now\<close> before it looks at the queue again.\<close>

theorem shutdown_drops_request:
  assumes "ready (the_cache E) sv" and "cache_frame (the_cache E)"
    and "request_to (the_cache E) (the_encode E) stack tv i q ld method sv = Inr (calls, sv')"
    and "i < length (sv_resources sv)" and "large_data_ok ld" and "length stack = 256"
    and "accepted_response calls"
  shows "\<exists>as p. execution E (program_start sv) as p \<and> pg_main p = Returned 0 \<and> pg_failed p = None \<and>
    pg_answers p = [calls] \<and> length (pg_accepted p) = 1 \<and> pg_handled p = []"
proof -
  let ?p = "first_request calls sv sv'"
  let ?p1 = "?p\<lparr>pg_exit := True, pg_handler := HandlerDone, pg_updater := UpdaterDone,
       pg_main := JoinQueueThread\<rparr>"
  note e = first_request_execution [OF assms(3-6)]
  note e1 = execution_append [OF e closing_execution [OF first_request_state(1-4)]]
  have ok: "program_ok (the_cache E) ?p1" by (rule started_execution [OF e1 assms(1,2)])
  have "alive ?p1" using first_request_state(1) [of calls sv sv'] by (simp add: alive_def)
  from joining_execution [OF this _ _ _ ok assms(2)] obtain p' where
    p': "execution E ?p1 [MainTurn, MainTurn, MainTurn] p'" "pg_main p' = Returned 0"
      "pg_failed p' = None" "pg_handled p' = []" "pg_answers p' = [calls]"
      "pg_accepted p' = pg_accepted ?p1"
    by (auto simp: first_request_state)
  have "length (pg_accepted ?p1) = 1"
    using ok assms(7) by (simp add: program_ok_def items_ok_def first_request_state)
  then show ?thesis
    by (intro exI conjI) (rule execution_append [OF e1 p'(1)], simp_all only: p'(2-6))
qed

theorem shutdown_drops_request_witness:
  "\<exists>as p. execution example_surroundings (program_start example_server) as p \<and>
    pg_main p = Returned 0 \<and> pg_failed p = None \<and>
    pg_answers p = [[SetCode CODE_OK, SetTypeAck]] \<and> length (pg_accepted p) = 1 \<and> pg_handled p = []"
proof -
  obtain queue where "request_to simple_cache_api example_encode example_stack example_time 0 7
      (whole_body [9]) PUT example_server = Inr ([SetCode CODE_OK, SetTypeAck],
        example_server\<lparr>sv_blocks := empty_block_state, sv_queue := queue\<rparr>)"
    using put_lamp_accepted by blast
  then show ?thesis
    using shutdown_drops_request [of example_surroundings example_server example_stack example_time 0 7
        "whole_body [9]" PUT "[SetCode CODE_OK, SetTypeAck]"]
      example_ready simple_cache_frame example_body_ok
    by (simp add: example_server_def)
qed

end
