(* ===== verification/Spec2Isabelle.thy ===== *)
theory Spec2Isabelle
  imports RequestQueue QueueThreads Formatters Templates ConfigParse Blockwise Resources ValueThreads
    Requests Server MainProgram Lifetimes ServerInvariant ProgramThreads ProgramProperties
begin

text \<open>
  A model of coapserver, a CoAP server that is configured by a JSON file: each configured resource has
  a path, a value and GET, POST and PUT methods that print, log, store or hand the data of requests
  to commands.

  Parts and how they interact. \<open>main\<close> (\<open>src/main.cpp\<close>) reads the command line and the configuration
  (\<open>src/Config.cpp\<close>, which expands resource templates), creates the request queue
  (\<open>src/RequestQueue.cpp\<close>) and the server (\<open>src/CoAPServer.cpp\<close>), and then runs three threads. The
  server thread is inside libcoap, which calls the handlers of the resources (\<open>src/Resource.cpp\<close>):
  they gather block-wise bodies, answer, and put the request into the queue. The request handler
  thread takes requests out and does the work of their methods (\<open>src/ResourceMethod.cpp\<close>): formatting
  (\<open>src/ResourceFormatter/\<close>), commands, output, storing the value. The value update thread re-reads
  data files that other programs have changed. A request to a path that only a dynamic resource
  matches creates a resource for that path. After a signal \<open>main\<close> joins the threads and destroys the
  server.

  Which theory models what (the definitions have the names of the functions and members):
  \<^item> \<open>Prelude\<close>: machine types, results with thrown errors and undefined behaviour, checked array
    accesses, ring arithmetic. \<open>CxxStd\<close>: the parts of the C and C++ libraries the sources use.
  \<^item> \<open>RequestQueue\<close>: the ring buffer on 64-bit positions; the locale \<open>bounded_fifo\<close> is the interface
    its clients use, with the refinement of a bounded list proved in it. \<open>QueueThreads\<close>: the same
    buffer as interleaved steps of the server thread and the request handler thread.
  \<^item> \<open>Formatters\<close>: the three formatters on an output stream, the locales \<open>resource_formatter\<close> and
    \<open>lossless_formatter\<close> with an interpretation for each formatter.
  \<^item> \<open>ConfigTypes\<close>, \<open>Templates\<close>, \<open>ConfigParse\<close>: the configuration data, template substitution and
    generation, the constructors from JSON and the expansion of instances.
  \<^item> \<open>Blockwise\<close>: \<open>Resource::sessionGetData\<close>, with the buffers of unfinished bodies as a heap.
  \<^item> \<open>Resources\<close>: construction, value, data file, attaching and log of a resource, on a \<open>world\<close> of files,
    clock, output and calls to libcoap; the locale \<open>backed_value\<close> is what users of the value rely on.
    \<open>ValueThreads\<close>: \<open>setValue\<close> and \<open>valueUpdate\<close> as interleaved steps of their two threads.
  \<^item> \<open>Requests\<close>: the request handlers with their responses, and the work of a queued request.
  \<^item> \<open>Server\<close>: construction and \<open>init\<close>, address resolution, DTLS settings and their callbacks, dynamic
    resources, value updates, the log line. \<open>Lifetimes\<close>: the destructors on the set of live objects.
  \<^item> \<open>MainProgram\<close>: command line, start, and the bodies of the thread loops.
  \<^item> \<open>ServerInvariant\<close>: what every operation of the server keeps (\<open>server_ok\<close>) and that it is free of
    undefined behaviour (\<open>defined\<close>), operation by operation.
  \<^item> \<open>ProgramThreads\<close>: the running program as an inductive step relation over the main thread with the
    requests libcoap hands it, the two other threads, the signal handler and changes of the files from
    outside; its invariant \<open>program_ok\<close>, and the measures of progress. \<open>ProgramProperties\<close>: what
    follows for all executions from a successful start.
  \<^item> this theory: what holds across components, from the configuration to the attached resources and
    from a PUT to the next GET.

  What the lemmas show. The queue is a first-in first-out list for any sequence of calls and, between
  its two threads, in every execution in which the fullness test does not fall into the window
  between the increment of \<open>start\<close> to \<open>maxSize\<close> and its reset, where every published item is also
  taken after a bounded number of turns; two executions show what happens in that window. Bodies in
  blocks are put together, and no sequence of blocks and expiring cache entries misuses memory.
  Loaded configurations only have methods that can be attached. The formatters and the substitutions
  equal short specifications, with decoders as round trips. Stored values survive updates, newer
  files are taken over, and the two writers of a value are safe outside one window. Every handler has
  its responses on success and on its error paths. The running program keeps its invariant, runs
  into no undefined behaviour under the stated conditions, handles what it accepts in order and after
  a bounded number of turns, ends after a signal, and releases what it has made; it can drop accepted
  requests when it ends, and a client can end it with a path that leads to a file that cannot be
  written.

  Levels of atomicity. \<open>ProgramThreads\<close> takes each call on shared state as one step. \<open>QueueThreads\<close> and
  \<open>ValueThreads\<close> take the calls on the queue and on a value apart into their loads, stores and lock
  operations; outside the two windows described there they justify the coarser steps.

  Parameters. Code that is not in the repository is an argument of the definitions that call it: the
  JSON library (\<open>json_api\<close>), the cache of libcoap (\<open>cache_api\<close>, with its documented behaviour as
  \<open>cache_laws\<close> and \<open>cache_frame\<close>), the encoder of option values, the host and context calls of \<open>init\<close>
  (\<open>host_api\<close>), the regular expression engine, Boost.Process (\<open>cmd_runner\<close>), Boost.Program_options and
  the time zone. Each has an instance in the witnesses.

  Bounds. \<open>size_t\<close> is a 64-bit word; queue sizes go up to \<open>2 ^ 63\<close>, more than can be allocated, so that
  \<open>end + maxSize\<close> does not wrap. The loops are total functions, except the loop that empties the queue,
  which is a \<open>partial_function\<close> and proved to end, and the loops of the threads, which are steps of a
  relation with measures for their progress. In \<open>QueueThreads\<close> positions are natural numbers, proved
  to stay at most \<open>maxSize\<close>.

  Not modelled: diagnostics on the standard error stream; the members of the DTLS structure that the
  program leaves unset; the durations of sleeps and timeouts; the memory model below sequentially
  consistent atomics. Calls of \<open>localtime\<close> from two threads and the unlocked list of resources (whose
  growth is atomic in \<open>ProgramThreads\<close>) are not modelled as finer interleavings. Objects of a dynamic
  resource that could not be attached, and buffers of libcoap itself, are outside the set of live
  objects.

  Plan. Blocks of several requests mixed with other requests at the level of the running program,
  with the reassembled bodies in its ghost state; the two finer thread models put under the program's
  steps by a simulation; no buffer of a body left after the cache has been freed.
\<close>

section \<open>From the configuration to the server\<close>

text \<open>C14: a server built from a configuration that loads holds one resource for each that is not dynamic
  and the configurations of the dynamic ones, in order; every resource can be attached (only the
  methods GET, POST and PUT occur), and the queue it was given is untouched.\<close>

theorem server_from_config:
  assumes "load_Config J parse read path = Inr c"
    and "new_CoAPServer dtls_ok tls_ok c queue blocks w = Inr sv"
  shows "map r_config (sv_resources sv) = filter (\<lambda>r. \<not> dynamic r) (config_resources c) \<and>
    sv_dynamic sv = filter dynamic (config_resources c) \<and> list_all servable (sv_resources sv) \<and>
    list_all resource_config_ok (sv_dynamic sv) \<and> sv_queue sv = queue"
proof -
  have ok: "list_all resource_config_ok (config_resources c)"
    using assms(1) build_Config_ok by (auto simp: load_Config_def res_simps split: option.splits)
  obtain sv0 where sv0: "add_resources (config_resources c) sv0 = Inr sv" "sv_resources sv0 = []"
      "sv_dynamic sv0 = []" "sv_queue sv0 = queue"
    using assms(2) by (auto simp: new_CoAPServer_def Let_def split: if_splits)
  show ?thesis
    using add_resources_split [OF sv0(1)] sv0(2-4) ok by (auto simp: list_all_iff)
qed

theorem server_from_config_witness:
  "\<exists>sv. new_CoAPServer True True example_config (example_queue 4) empty_block_state example_world = Inr sv \<and>
     map r_config (sv_resources sv) = config_resources example_config \<and>
     list_all servable (sv_resources sv)"
proof -
  have l: "load_Config jval_api (\<lambda>_. Inr example_json) (\<lambda>_. Some []) ''config.json'' = Inr example_config"
    by (simp add: load_Config_def example_json_config)
  have d: "filter (\<lambda>r. \<not> dynamic r) (config_resources example_config) = config_resources example_config"
    by code_simp
  obtain sv where sv: "new_CoAPServer True True example_config (example_queue 4) empty_block_state
      example_world = Inr sv"
    by (simp add: new_CoAPServer_def example_config_def example_methods_def example_world_def
        new_Resource_def new_ResourceMethod_def createResourceFormatter_def default_endpoint_config_def
        default_resource_config_def default_method_config_def Let_def)
  from server_from_config [OF l sv] show ?thesis using sv d by auto
qed

section \<open>From a PUT to the next GET\<close>

text \<open>The requests that carry the blocks of one body, with their responses.\<close>

fun put_blocks ::
  "('c, 'q, 'e) cache_api \<Rightarrow> (nat \<Rightarrow> u32 \<Rightarrow> bytes) \<Rightarrow> bytes \<Rightarrow> timeval \<Rightarrow> nat \<Rightarrow> 'q \<Rightarrow> nat \<Rightarrow>
   (bytes \<times> nat) list \<Rightarrow> 'c server \<Rightarrow> (pdu_call list list \<times> 'c server) res" where
  "put_blocks A encode stack tv i q off [] sv = Inr ([], sv)"
| "put_blocks A encode stack tv i q off (b # bs) sv =
     ebind (request_to A encode stack tv i q (block off b) PUT sv) (\<lambda>(calls, sv').
     ebind (put_blocks A encode stack tv i q (off + length (fst b)) bs sv') (\<lambda>(rest, sv'').
       Inr (calls # rest, sv'')))"

lemma put_blocks_responses:
  assumes "feed_blocks A q off bs (sv_blocks sv) =
      Inr (replicate (length bs - 1) (0, []) @ [(1, d)], s')" and "bs \<noteq> []"
    and "i < length (sv_resources sv)" and "find_method PUT (sv_resources sv ! i) = Some j"
    and "rq_wf (sv_queue sv)" and "rq_len (sv_queue sv) < rq_capacity (sv_queue sv)"
  shows "\<exists>queue. put_blocks A encode stack tv i q off bs sv =
      Inr (replicate (length bs - 1) [SetCode CODE_CONTINUE] @ [[SetCode CODE_OK, SetTypeAck]],
        sv\<lparr>sv_blocks := s', sv_queue := queue\<rparr>) \<and> rq_wf queue \<and>
    rq_contents queue = rq_contents (sv_queue sv) @ [queued (i, j) d tv] \<and>
    rq_capacity queue = rq_capacity (sv_queue sv)"
  using assms
proof (induction bs arbitrary: off sv)
  case (Cons b bs)
  show ?case
  proof (cases "bs = []")
    case True
    then have "sessionGetData A q (block off b) [] (sv_blocks sv) = Inr (1, d, s')"
      using Cons.prems(1) by (auto simp: res_simps)
    from request_last_block [OF this Cons.prems(3-6), of encode stack tv] show ?thesis
      using True by auto
  next
    case False
    then have "length bs = Suc (length bs - 1)" by simp
    then have rep: "replicate (length (b # bs) - 1) x = x # replicate (length bs - 1) x" for x :: 'z
      by (metis length_Cons diff_Suc_1 replicate_Suc)
    obtain s1 where s1: "sessionGetData A q (block off b) [] (sv_blocks sv) = Inr (0, [], s1)"
        "feed_blocks A q (off + length (fst b)) bs s1 =
          Inr (replicate (length bs - 1) (0, []) @ [(1, d)], s')"
      using Cons.prems(1) unfolding rep by (auto simp: res_simps)
    let ?sv = "sv\<lparr>sv_blocks := s1, sv_queue := sv_queue sv\<rparr>"
    from Cons.IH [of "off + length (fst b)" ?sv] s1(2) False Cons.prems(3-6) obtain queue where
      q: "put_blocks A encode stack tv i q (off + length (fst b)) bs ?sv =
        Inr (replicate (length bs - 1) [SetCode CODE_CONTINUE] @ [[SetCode CODE_OK, SetTypeAck]],
          ?sv\<lparr>sv_blocks := s', sv_queue := queue\<rparr>)" "rq_wf queue"
        "rq_contents queue = rq_contents (sv_queue sv) @ [queued (i, j) d tv]"
        "rq_capacity queue = rq_capacity (sv_queue sv)"
      by auto
    then show ?thesis
      using request_more_blocks [OF s1(1) Cons.prems(3), of encode stack tv]
      unfolding rep by (intro exI [of _ queue]) simp
  qed
qed simp

text \<open>A body in one block needs no buffer.\<close>

lemma feed_any_blocks:
  assumes "cache_laws A" and "can_start A q s" and "blocks_ok 0 bs"
  shows "\<exists>s'. feed_blocks A q 0 bs s =
    Inr (replicate (length bs - 1) (0, []) @ [(1, concat (map fst bs))], s')"
proof (cases "2 \<le> length bs")
  case True
  from feed_all_blocks [OF assms True] show ?thesis by blast
next
  case False
  then obtain b where b: "bs = [b]" using assms(3) by (cases bs; cases "tl bs") auto
  have f: "ld_size (block 0 b) = ld_total (block 0 b)" "unat (ld_size (block 0 b)) = length (fst b)"
    using block_fields(1,7) [of 0 b "[]"] assms(3) by (auto simp: b block_def)
  have "sessionGetData A q (block 0 b) [] s = Inr (1, fst b, s)"
    using sessionGetData_single [of "block 0 b" A q "[]" s] f by (simp add: block_def)
  then show ?thesis by (simp add: b)
qed

lemma drain_one_item:
  assumes "rq_wf (sv_queue sv)" and "rq_contents (sv_queue sv) = [item]"
    and "process_item localtime run env item sv = Inr sv'"
  shows "\<exists>queue. drain localtime run env sv = Some (Inr (sv'\<lparr>sv_queue := queue\<rparr>)) \<and> rq_wf queue \<and>
    rq_contents queue = [] \<and> rq_capacity queue = rq_capacity (sv_queue sv)"
proof -
  have "rq_capacity (sv_queue sv) < 2 ^ 64"
    using assms(1) by (auto simp: rq_wf_def rq_capacity_def)
  from ring.drain_loop_result [OF assms(1) this, of "process_item localtime run env" sv]
  show ?thesis using assms(2,3) by (auto simp: drain_def)
qed

text \<open>C1: what is put is what is got. A body sent in one or more blocks to a resource with a storing PUT
  method is answered 2.31 for each block but the last and 2.00 for the last; once the request handler
  thread has emptied the queue, a GET is answered 2.05 with exactly that body.\<close>

theorem put_then_get:
  assumes "cache_laws A" and "can_start A q (sv_blocks sv)" and "blocks_ok 0 bs"
    and "i < length (sv_resources sv)" and "sv_resources sv ! i = r"
    and "rq_wf (sv_queue sv)" and "rq_contents (sv_queue sv) = []" and "0 < rq_capacity (sv_queue sv)"
    and "find_method PUT r = Some j" and "store (m_config (r_methods r ! j))"
    and "runnable run (r_methods r ! j)" and "can_store r (sv_world sv)" and "separate_log r"
    and "find_method GET r = Some k" and "length (path_bytes r) < 255" and "length stack = 256"
  shows "\<exists>sv1 sv2 sv3.
    put_blocks A encode stack tv i q 0 bs sv =
      Inr (replicate (length bs - 1) [SetCode CODE_CONTINUE] @ [[SetCode CODE_OK, SetTypeAck]], sv1) \<and>
    drain localtime run env sv1 = Some (Inr sv2) \<and>
    request_to A encode stack tv' i q' ld GET sv2 =
      Inr ([AddOption OPTION_URI_PATH (path_bytes r),
            AddOption OPTION_CONTENT_FORMAT (encode 16 MEDIATYPE_TEXT_PLAIN),
            AddOption OPTION_MAXAGE (encode 16 (getMaxAge r)),
            AddData (concat (map fst bs)), SetCode CODE_CONTENT], sv3)"
proof -
  let ?d = "concat (map fst bs)" and ?m = "r_methods r ! j"
  have bs: "bs \<noteq> []" using assms(3) by auto
  have len: "rq_len (sv_queue sv) < rq_capacity (sv_queue sv)"
    using assms(7,8) rq_contents_length [of "sv_queue sv"] by simp
  obtain s' where feed: "feed_blocks A q 0 bs (sv_blocks sv) =
      Inr (replicate (length bs - 1) (0, []) @ [(1, ?d)], s')"
    using feed_any_blocks [OF assms(1-3)] by blast
  obtain queue1 where q1: "put_blocks A encode stack tv i q 0 bs sv =
      Inr (replicate (length bs - 1) [SetCode CODE_CONTINUE] @ [[SetCode CODE_OK, SetTypeAck]],
        sv\<lparr>sv_blocks := s', sv_queue := queue1\<rparr>)" "rq_wf queue1"
      "rq_contents queue1 = [queued (i, j) ?d tv]" "rq_capacity queue1 = rq_capacity (sv_queue sv)"
    using put_blocks_responses [OF feed bs assms(4) _ assms(6) len, of j encode stack tv] assms(5,7,9)
    by auto
  let ?sv1 = "sv\<lparr>sv_blocks := s', sv_queue := queue1\<rparr>"
  have m: "getMethodType ?m \<in> {POST, PUT}" "j < length (r_methods r)"
    using find_method_Some [OF assms(9)] by auto
  obtain r' w' where item: "handleRequestQueueItem localtime run env ?m (queued (i, j) ?d tv) r
        (sv_world sv) = Inr (0, r', w')" "r_value r' = ?d" "r_config r' = r_config r"
      "r_methods r' = r_methods r"
    using handle_item_store [OF m(1) assms(10-13), of localtime env "queued (i, j) ?d tv"]
    by (auto simp: queued_def)
  have "process_item localtime run env (queued (i, j) ?d tv) ?sv1 =
      Inr (?sv1\<lparr>sv_resources := (sv_resources sv)[i := r'], sv_world := w'\<rparr>)"
    using item(1) assms(4,5) m(2) by (simp add: process_item_def queued_def)
  from drain_one_item [of ?sv1, OF _ _ this] q1(2,3) obtain queue2 where
    q2: "drain localtime run env ?sv1 = Some (Inr (?sv1\<lparr>sv_resources := (sv_resources sv)[i := r'],
        sv_world := w', sv_queue := queue2\<rparr>))"
      "rq_wf queue2" "rq_contents queue2 = []" "rq_capacity queue2 = rq_capacity (sv_queue sv)"
    using q1(4) by auto
  have r': "find_method GET r' = Some k" "path_bytes r' = path_bytes r" "getMaxAge r' = getMaxAge r"
      "getValue r' = ?d"
    using item(2-4) assms(14)
    by (simp_all add: find_method_def path_bytes_def getPath_def getMaxAge_def getValue_def)
  have "rq_len queue2 < rq_capacity queue2"
    using assms(8) q2(3,4) rq_contents_length [of queue2] by simp
  from handle_GET_request [OF q2(2) this r'(1) _ assms(16), of A encode tv' i q' ld s'] show ?thesis
    using q1(1) q2(1) r' assms(4,15) by (fastforce simp: request_to_def content_response_def)
qed

theorem put_then_get_witness:
  "\<exists>sv1 sv2 sv3.
    put_blocks simple_cache_api example_encode example_stack example_time 0 7 0
        [([1, 2], 3), ([3, 4], 5), ([5], 5)] example_server =
      Inr ([[SetCode CODE_CONTINUE], [SetCode CODE_CONTINUE], [SetCode CODE_OK, SetTypeAck]], sv1) \<and>
    drain example_tm (\<lambda>_ _ _ _. LaunchFailed) Map.empty sv1 = Some (Inr sv2) \<and>
    request_to simple_cache_api example_encode example_stack example_time 0 8 (whole_body []) GET sv2 =
      Inr ([AddOption OPTION_URI_PATH (path_bytes lamp),
            AddOption OPTION_CONTENT_FORMAT (example_encode 16 MEDIATYPE_TEXT_PLAIN),
            AddOption OPTION_MAXAGE (example_encode 16 (getMaxAge lamp)),
            AddData [1, 2, 3, 4, 5], SetCode CODE_CONTENT], sv3)"
proof -
  have sv: "sv_blocks example_server = empty_block_state" "sv_resources example_server = [lamp]"
    "sv_queue example_server = example_queue 4" "sv_world example_server = example_world"
    by (simp_all add: example_server_def)
  have m: "r_methods lamp ! 1 = example_method PUT True" by (simp add: lamp_def)
  have q: "rq_wf (example_queue 4)" "0 < rq_capacity (example_queue 4)"
    using example_queue_room [of 4] by simp_all
  have run: "store (m_config (example_method PUT True))"
    "runnable (\<lambda>_ _ _ _. LaunchFailed) (example_method PUT True)"
    by (simp_all add: example_method_def runnable_def default_method_config_def)
  have bs: "blocks_ok 0 [([1, 2 :: byte], 3), ([3, 4], 5), ([5], 5)]" by simp
  have path: "length (path_bytes lamp) < 255" by (simp add: lamp_path)
  have st: "length example_stack = 256" by (simp add: example_stack_def)
  show ?thesis
    using put_then_get [where A = simple_cache_api and q = 7 and sv = example_server and i = 0 and
        r = lamp and run = "\<lambda>_ _ _ _. LaunchFailed" and encode = example_encode and
        tv = example_time and env = Map.empty and localtime = example_tm and tv' = example_time and
        q' = 8 and ld = "whole_body []",
        OF simple_cache_laws _ bs _ _ _ _ _ lamp_methods(2) _ _ _ lamp_separate lamp_methods(1) path st]
      simple_cache_can_start [of 7] q run lamp_can_store
    by (simp add: sv m m [unfolded One_nat_def] del: put_blocks.simps)
qed

end
